theory Spec2Isabelle
  imports Main "HOL-Library.Word"
begin

section \<open>The BIRD route-import coordinator (modules/route/coordinator/service.go)\<close>

text \<open>
  The coordinator talks to three collaborators that are not part of the file: the Route
  service behind gRPC, the BIRD export reader and the Go runtime (contexts, channels,
  timers). Whatever they answer is an input of the model: every function below takes the
  answers it will observe as an explicit argument, and every call it makes to a
  collaborator is appended to a trace of events. Logging is left out.
\<close>

subsection \<open>Errors\<close>

text \<open>
  A Go \<^verbatim>\<open>error\<close> value. \<open>Canceled\<close> and \<open>DeadlineExceeded\<close> are the two sentinels of
  package context, \<open>errStreamClosed\<close> is the sentinel of line 126, \<open>Opaque\<close> is any
  other leaf error, \<open>Wrapped m e\<close> is \<^verbatim>\<open>fmt.Errorf(m + ": %w", e)\<close> and \<open>Joined\<close> is the
  value built by \<^verbatim>\<open>errors.Join\<close>. A nil error is \<open>None\<close> of \<open>error option\<close>.
\<close>

datatype error =
    Canceled
  | DeadlineExceeded
  | errStreamClosed
  | Opaque string
  | Wrapped string error
  | Joined "error list"

text \<open>\<^verbatim>\<open>errors.Join\<close> drops the nil arguments and returns nil when none is left.\<close>

definition errors_Join :: "error option list \<Rightarrow> error option" where
  "errors_Join errs =
     (let es = List.map_filter (\<lambda>e. e) errs
      in if es = [] then None else Some (Joined es))"

text \<open>\<^verbatim>\<open>errors.Is\<close>: the error itself, or any error of its unwrap tree, equals the target.\<close>

fun errors_Is :: "error \<Rightarrow> error \<Rightarrow> bool" where
  "errors_Is (Wrapped m e) t = (Wrapped m e = t \<or> errors_Is e t)"
| "errors_Is (Joined es) t = (Joined es = t \<or> list_ex (\<lambda>e. errors_Is e t) es)"
| "errors_Is e t = (e = t)"

subsection \<open>Data\<close>

type_synonym ctx_id = nat
type_synonym conn_id = nat
type_synonym stream_id = nat
type_synonym addr = nat

record instanceKey =
  name :: string
  dataplaneInstance :: "32 word"

record TargetModule =
  ConfigName :: string
  DataplaneInstance :: "32 word"

text \<open>A static route of the configuration; both fields as their \<^verbatim>\<open>String()\<close>.\<close>

record Route =
  Prefix :: string
  Nexthop :: string

text \<open>\<^verbatim>\<open>bird.Config\<close>: the sockets, and the tuning parameters the reader alone looks at.\<close>

record bird_Config =
  Sockets :: "string list"
  tuning :: string

text \<open>
  \<^verbatim>\<open>Config\<close>. \<open>BirdImport\<close> is a pointer to a \<^verbatim>\<open>bird.Config\<close> (it is passed as the
  \<^verbatim>\<open>cfg *bird.Config\<close> of line 142): \<open>None\<close> is the nil pointer, which the YAML decoder
  leaves for a null \<^verbatim>\<open>bird_import\<close> section.
\<close>

record Config =
  Routes :: "Route list"
  BirdImport :: "bird_Config option"

text \<open>\<^verbatim>\<open>rib.Route\<close>, as far as the coordinator reads it.\<close>

record rib_Route =
  rib_Prefix :: string
  ToRemove :: bool
  attrs :: string

text \<open>
  \<^verbatim>\<open>routepb.FromRIBRoute(&route, isBest)\<close> is a converter of another package; its result
  is kept as the call itself.
\<close>

datatype pb_Route = FromRIBRoute rib_Route bool

record Update =
  Target :: TargetModule
  IsDelete :: bool
  Route :: pb_Route

text \<open>\<^verbatim>\<open>bird.NewExportReader(cfg, onUpdate, onFlush, log)\<close>: the reader of one import.\<close>

datatype Export = NewExportReader "bird_Config option"

text \<open>
  \<^verbatim>\<open>importHolder\<close>. The three pointer-like fields are nil (\<open>None\<close>) in a fresh holder;
  \<open>currentStream\<close> is the address of the stream variable, set right after allocation
  (line 156).
\<close>

record importHolder =
  export :: "Export option"
  cancel :: "ctx_id option"
  conn :: "conn_id option"
  currentStream :: addr

text \<open>Everything the coordinator does to the outside, in program order.\<close>

datatype event =
    NewClient conn_id
  | InsertRoute conn_id TargetModule string string
  | FlushRoutes conn_id TargetModule
  | FeedRIB conn_id ctx_id
  | Send stream_id Update
  | CloseAndRecv stream_id
  | CancelCtx ctx_id
  | ConnClose conn_id
  | Lock
  | Unlock
  | Store instanceKey importHolder
  | Go ctx_id importHolder conn_id
  | Run Export ctx_id
  | BackoffReset
  | NextBackOff

text \<open>
  The state: the registry \<^verbatim>\<open>m.imports\<close> (a holder is written once, before it is
  published, so the map holds the record rather than a pointer to it), the stream
  variables that \<open>currentStream\<close> fields point to, the allocator of fresh contexts,
  connections and addresses, the supervisor goroutines that were started and have not
  returned, and the trace.
\<close>

record world =
  m_imports :: "instanceKey \<rightharpoonup> importHolder"
  slots :: "addr \<Rightarrow> stream_id"
  nextId :: nat
  running :: "(ctx_id \<times> importHolder \<times> conn_id) list"
  trace :: "event list"

definition NewModuleService :: world where
  "NewModuleService =
     \<lparr>m_imports = Map.empty, slots = (\<lambda>_. 0), nextId = 0, running = [], trace = []\<rparr>"

definition emit :: "event list \<Rightarrow> world \<Rightarrow> world" where
  "emit es w = w\<lparr>trace := trace w @ es\<rparr>"

subsection \<open>The update forwarder \<^verbatim>\<open>onUpdate\<close> (lines 160-182)\<close>

text \<open>
  What one call of \<open>onUpdate\<close> observes: \<open>ctxErr idx\<close> is \<^verbatim>\<open>ctx.Err()\<close> when the
  \<^verbatim>\<open>select\<close> before route \<open>idx\<close> finds \<^verbatim>\<open>ctx.Done()\<close> ready and \<open>None\<close> when it takes
  the default branch (another goroutine may cancel the context at any moment, so each
  poll is an input); \<open>sendErr idx\<close> is what \<^verbatim>\<open>Send\<close> returns for route \<open>idx\<close>;
  \<open>closeErr\<close> is what \<^verbatim>\<open>CloseAndRecv\<close> returns.
\<close>

record update_env =
  ctxErr :: "nat \<Rightarrow> error option"
  sendErr :: "nat \<Rightarrow> error option"
  closeErr :: "error option"

definition mkUpdate :: "TargetModule \<Rightarrow> rib_Route \<Rightarrow> Update" where
  "mkUpdate target r =
     \<lparr>Target = target, IsDelete = ToRemove r, Route = FromRIBRoute r False\<rparr>"

definition sendFailed :: "rib_Route \<Rightarrow> string" where
  "sendFailed r = ''send BIRD route update for '' @ rib_Prefix r @ '' failed''"

text \<open>The loop \<^verbatim>\<open>for idx := range routes\<close>, from index \<open>idx\<close> on.\<close>

function onUpdate_from ::
  "update_env \<Rightarrow> TargetModule \<Rightarrow> importHolder \<Rightarrow> rib_Route list \<Rightarrow> nat \<Rightarrow> world
   \<Rightarrow> error option \<times> world" where
  "onUpdate_from env target holder routes idx w =
     (if idx < length routes then
        (case ctxErr env idx of
           Some cerr \<Rightarrow>
             (errors_Join [Some cerr, closeErr env, Some errStreamClosed],
              emit [CloseAndRecv (slots w (currentStream holder))] w)
         | None \<Rightarrow>
             (let w' = emit [Send (slots w (currentStream holder))
                               (mkUpdate target (routes ! idx))] w
              in case sendErr env idx of
                   Some err \<Rightarrow> (Some (Wrapped (sendFailed (routes ! idx)) err), w')
                 | None \<Rightarrow> onUpdate_from env target holder routes (Suc idx) w'))
      else (None, w))"
  by pat_completeness auto
termination
  by (relation "measure (\<lambda>(env, target, holder, routes, idx, w). length routes - idx)") auto

declare onUpdate_from.simps [simp del]

definition onUpdate ::
  "update_env \<Rightarrow> TargetModule \<Rightarrow> importHolder \<Rightarrow> rib_Route list \<Rightarrow> world
   \<Rightarrow> error option \<times> world" where
  "onUpdate env target holder routes w = onUpdate_from env target holder routes 0 w"

subsection \<open>The stream reconnector \<^verbatim>\<open>reconnectStream\<close> (lines 319-355)\<close>

text \<open>
  One round of the \<^verbatim>\<open>select\<close>: the quit channel, the context, or a tick of the backoff
  ticker together with what the \<^verbatim>\<open>FeedRIB\<close> call made on that tick returns.
\<close>

datatype tick_obs =
    SelQuit
  | SelCtxDone
  | SelTick "error + stream_id"

text \<open>
  The loop consumes one observation per round; \<open>p\<close> is the pointer \<^verbatim>\<open>currentStream\<close>
  of the source. \<open>None\<close> says that the call has not returned within the rounds
  observed: every tick so far failed and the loop is still waiting.
\<close>

fun reconnectStream ::
  "ctx_id \<Rightarrow> conn_id \<Rightarrow> addr \<Rightarrow> tick_obs list \<Rightarrow> world \<Rightarrow> (bool \<times> world) option" where
  "reconnectStream ctx client p [] w = None"
| "reconnectStream ctx client p (SelQuit # obs) w = Some (False, w)"
| "reconnectStream ctx client p (SelCtxDone # obs) w = Some (False, w)"
| "reconnectStream ctx client p (SelTick res # obs) w =
     (let w' = emit [FeedRIB client ctx] w
      in case res of
           Inl err \<Rightarrow> reconnectStream ctx client p obs w'
         | Inr newStream \<Rightarrow>
             Some (True, w'\<lparr>slots := (slots w')(p := newStream)\<rparr>))"

subsection \<open>The import supervisor \<^verbatim>\<open>runBirdImportLoop\<close> (lines 225-314)\<close>

datatype pre_select = PreCtxDone | PreQuit | PreDefault

datatype connectivity_State = Idle | Connecting | Ready | TransientFailure | Shutdown

datatype wake_select = WakeCtxDone | WakeQuit | WakeTimer

text \<open>
  What one iteration of the \<^verbatim>\<open>for\<close> loop observes, in program order: the outcome of
  the first \<^verbatim>\<open>select\<close> (lines 249-257), \<^verbatim>\<open>holder.conn.GetState()\<close>, the rounds of
  \<open>reconnectStream\<close> if it is called, what \<^verbatim>\<open>holder.export.Run(ctx)\<close> returns, what
  \<^verbatim>\<open>CloseAndRecv\<close> returns if it is called (it is only logged), whether more than \<^verbatim>\<open>backoffResetTimeout\<close>
  has passed since \<^verbatim>\<open>lastRunAttempt\<close>, and the outcome of the second \<^verbatim>\<open>select\<close>
  (lines 299-307).
\<close>

record iter_obs =
  pre :: pre_select
  connState :: connectivity_State
  reconnect :: "tick_obs list"
  runErr :: "error option"
  closeRecvErr :: "error option"
  idle :: bool
  wake :: wake_select

text \<open>
  How the function is left: by a \<^verbatim>\<open>return\<close>, or by the panic of a nil dereference
  (a holder whose \<open>conn\<close>, \<open>export\<close> or \<open>cancel\<close> is nil).
\<close>

datatype exit = Returned | Panicked

text \<open>
  The outcome of one iteration: the function is left, the loop goes round again with
  the given \<open>streamActive\<close>, or \<open>reconnectStream\<close> has not returned yet.
\<close>

datatype control = Exit exit | Again bool | Waiting

definition loopBody ::
  "ctx_id \<Rightarrow> importHolder \<Rightarrow> conn_id \<Rightarrow> bool \<Rightarrow> iter_obs \<Rightarrow> world \<Rightarrow> control \<times> world" where
  "loopBody ctx holder client streamActive ob w =
     (case pre ob of
        PreCtxDone \<Rightarrow> (Exit Returned, w)
      | PreQuit \<Rightarrow> (Exit Returned, w)
      | PreDefault \<Rightarrow>
          (case conn holder of
             None \<Rightarrow> (Exit Panicked, w)
           | Some c \<Rightarrow>
               if connState ob = Shutdown then (Exit Returned, w)
               else
                 (case (if \<not> streamActive
                        then reconnectStream ctx client (currentStream holder) (reconnect ob) w
                        else Some (True, w)) of
                    None \<Rightarrow> (Waiting, w)
                  | Some (False, w1) \<Rightarrow> (Exit Returned, w1)
                  | Some (True, w1) \<Rightarrow>
                      (case export holder of
                         None \<Rightarrow> (Exit Panicked, w1)
                       | Some ex \<Rightarrow>
                           (let w2 = emit [Run ex ctx] w1
                            in case runErr ob of
                                 None \<Rightarrow> (Exit Returned, w2)
                               | Some err \<Rightarrow>
                                   if errors_Is err Canceled \<or> errors_Is err DeadlineExceeded
                                   then (Exit Returned, w2)
                                   else
                                     (let w3 = (if \<not> errors_Is err errStreamClosed
                                                then emit [CloseAndRecv
                                                             (slots w2 (currentStream holder))] w2
                                                else w2);
                                          w4 = (if idle ob then emit [BackoffReset] w3 else w3);
                                          w5 = emit [NextBackOff] w4
                                      in case wake ob of
                                           WakeCtxDone \<Rightarrow> (Exit Returned, w5)
                                         | WakeQuit \<Rightarrow> (Exit Returned, w5)
                                         | WakeTimer \<Rightarrow> (Again False, w5)))))))"

text \<open>
  The \<^verbatim>\<open>for\<close> loop, one observation per iteration; \<open>None\<close> when the loop has not been
  left within the iterations observed.
\<close>

fun loop ::
  "ctx_id \<Rightarrow> importHolder \<Rightarrow> conn_id \<Rightarrow> bool \<Rightarrow> iter_obs list \<Rightarrow> world
   \<Rightarrow> (exit \<times> world) option" where
  "loop ctx holder client streamActive [] w = None"
| "loop ctx holder client streamActive (ob # obs) w =
     (case loopBody ctx holder client streamActive ob w of
        (Exit e, w') \<Rightarrow> Some (e, w')
      | (Again streamActive', w') \<Rightarrow> loop ctx holder client streamActive' obs w'
      | (Waiting, w') \<Rightarrow> None)"

text \<open>The deferred function of lines 231-235.\<close>

definition cleanup :: "importHolder \<Rightarrow> world \<Rightarrow> exit \<times> world" where
  "cleanup holder w =
     (case cancel holder of
        None \<Rightarrow> (Panicked, w)
      | Some c \<Rightarrow>
          (let w1 = emit [CancelCtx c] w
           in case conn holder of
                None \<Rightarrow> (Panicked, w1)
              | Some k \<Rightarrow> (Returned, emit [ConnClose k] w1)))"

text \<open>
  The whole function: the backoff is reset, \<open>streamActive\<close> starts true, the loop runs,
  and the deferred cleanup runs however the loop was left. A panic of the loop is not
  recovered by the cleanup.
\<close>

definition runBirdImportLoop ::
  "ctx_id \<Rightarrow> importHolder \<Rightarrow> conn_id \<Rightarrow> iter_obs list \<Rightarrow> world \<Rightarrow> (exit \<times> world) option" where
  "runBirdImportLoop ctx holder client obs w =
     (case loop ctx holder client True obs (emit [BackoffReset] w) of
        None \<Rightarrow> None
      | Some (e, w') \<Rightarrow>
          (case cleanup holder w' of
             (e', w'') \<Rightarrow> Some (if e = Panicked then Panicked else e', w'')))"

subsection \<open>The import registry \<^verbatim>\<open>processBirdImport\<close> (lines 142-219)\<close>

text \<open>
  What one \<^verbatim>\<open>SetupConfig\<close> call observes: the YAML decoder (applied to the request's
  bytes over \<^verbatim>\<open>DefaultConfig()\<close>), the error of \<^verbatim>\<open>grpc.NewClient\<close>, the error of the
  \<open>i\<close>-th \<^verbatim>\<open>InsertRoute\<close>, the error of \<^verbatim>\<open>FlushRoutes\<close>, and what the initial
  \<^verbatim>\<open>FeedRIB\<close> returns.
\<close>

record setup_env =
  yamlUnmarshal :: "string \<Rightarrow> error + Config"
  dialErr :: "error option"
  insertErr :: "nat \<Rightarrow> error option"
  flushErr :: "error option"
  feedRes :: "error + stream_id"

text \<open>Lines 200-208: the predecessor is cancelled and its connection closed.\<close>

definition stopOld :: "importHolder \<Rightarrow> world \<Rightarrow> world" where
  "stopOld oldHolder w =
     (let w1 = (case cancel oldHolder of None \<Rightarrow> w | Some c \<Rightarrow> emit [CancelCtx c] w)
      in case conn oldHolder of None \<Rightarrow> w1 | Some k \<Rightarrow> emit [ConnClose k] w1)"

text \<open>
  \<^verbatim>\<open>context.WithCancel\<close> gives a fresh context; the local variable \<^verbatim>\<open>stream\<close>, whose
  address goes into \<open>currentStream\<close>, gets a fresh address. The deferred \<^verbatim>\<open>Unlock\<close> runs
  when the function returns, after the \<^verbatim>\<open>go\<close> statement. The pointer \<open>cfg\<close> is handed to
  the reader unread.
\<close>

definition processBirdImport ::
  "setup_env \<Rightarrow> conn_id \<Rightarrow> bird_Config option \<Rightarrow> TargetModule \<Rightarrow> world
   \<Rightarrow> error option \<times> world" where
  "processBirdImport env c cfg target w =
     (let streamCtx = nextId w;
          w1 = emit [FeedRIB c streamCtx] (w\<lparr>nextId := Suc (nextId w)\<rparr>)
      in case feedRes env of
           Inl err \<Rightarrow>
             (Some (Wrapped ''failed to setup initial BIRD import stream'' err),
              emit [CancelCtx streamCtx] w1)
         | Inr stream \<Rightarrow>
             (let p = nextId w1;
                  w2 = w1\<lparr>nextId := Suc (nextId w1), slots := (slots w1)(p := stream)\<rparr>;
                  holder0 = \<lparr>export = None, cancel = None, conn = None, currentStream = p\<rparr>;
                  ex = NewExportReader cfg;
                  key = \<lparr>name = ConfigName target,
                         dataplaneInstance = DataplaneInstance target\<rparr>;
                  w3 = emit [Lock] w2;
                  w4 = (case m_imports w3 key of
                          Some oldHolder \<Rightarrow> stopOld oldHolder w3
                        | None \<Rightarrow> w3);
                  holder = holder0\<lparr>export := Some ex, cancel := Some streamCtx, conn := Some c\<rparr>;
                  w5 = emit [Store key holder] (w4\<lparr>m_imports := (m_imports w4)(key \<mapsto> holder)\<rparr>);
                  w6 = emit [Go streamCtx holder c]
                         (w5\<lparr>running := running w5 @ [(streamCtx, holder, c)]\<rparr>);
                  w7 = emit [Unlock] w6
              in (None, w7)))"

subsection \<open>The setup entrypoint (lines 55-124)\<close>

text \<open>The loop over \<^verbatim>\<open>config.Routes\<close>; \<open>i\<close> counts the \<^verbatim>\<open>InsertRoute\<close> calls made so far.\<close>

fun insertRoutes ::
  "setup_env \<Rightarrow> conn_id \<Rightarrow> TargetModule \<Rightarrow> Route list \<Rightarrow> nat \<Rightarrow> world
   \<Rightarrow> error option \<times> world" where
  "insertRoutes env c target [] i w = (None, w)"
| "insertRoutes env c target (route # routes) i w =
     (let w' = emit [InsertRoute c target (Prefix route) (Nexthop route)] w
      in case insertErr env i of
           Some err \<Rightarrow> (Some (Wrapped ''failed to insert static route'' err), w')
         | None \<Rightarrow> insertRoutes env c target routes (Suc i) w')"

text \<open>
  How a call ends: it returns a value, or it panics on a nil dereference (nothing in
  the file recovers).
\<close>

datatype 'a outcome = Returns 'a | Panics

text \<open>
  Line 116 reads \<^verbatim>\<open>config.BirdImport.Sockets\<close> without a nil check: with a nil
  \<open>BirdImport\<close> the call panics there, after the static routes were inserted and
  flushed and with the connection open.
\<close>

definition setupConfig ::
  "setup_env \<Rightarrow> 32 word \<Rightarrow> string \<Rightarrow> Config \<Rightarrow> world
   \<Rightarrow> error option outcome \<times> world" where
  "setupConfig env instance configName config w =
     (case dialErr env of
        Some err \<Rightarrow> (Returns (Some (Wrapped ''failed to connect to the gateway'' err)), w)
      | None \<Rightarrow>
          (let c = nextId w;
               w1 = emit [NewClient c] (w\<lparr>nextId := Suc (nextId w)\<rparr>);
               target = \<lparr>ConfigName = configName, DataplaneInstance = instance\<rparr>
           in case insertRoutes env c target (Routes config) 0 w1 of
                (Some err, w2) \<Rightarrow> (Returns (Some err), w2)
              | (None, w2) \<Rightarrow>
                  (let w3 = emit [FlushRoutes c target] w2
                   in case flushErr env of
                        Some err \<Rightarrow>
                          (Returns (Some (Wrapped (''failed to flush static routes for ''
                                                   @ configName) err)),
                           w3)
                      | None \<Rightarrow>
                          (case BirdImport config of
                             None \<Rightarrow> (Panics, w3)
                           | Some birdImport \<Rightarrow>
                               if length (Sockets birdImport) = 0
                               then (Returns None, emit [ConnClose c] w3)
                               else (case processBirdImport env c (BirdImport config) target w3 of
                                       (r, w4) \<Rightarrow> (Returns r, w4))))))"

record SetupConfigRequest =
  req_Instance :: "32 word"
  req_ConfigName :: string
  req_Config :: string

datatype code = InvalidArgument | Internal

text \<open>\<^verbatim>\<open>status.Errorf(code, msg + ": %v", err)\<close>.\<close>

datatype status = Status code string error

definition SetupConfig ::
  "setup_env \<Rightarrow> SetupConfigRequest \<Rightarrow> world \<Rightarrow> (status + unit) outcome \<times> world" where
  "SetupConfig env req w =
     (let instance = req_Instance req;
          configName = req_ConfigName req
      in case yamlUnmarshal env (req_Config req) of
           Inl err \<Rightarrow>
             (Returns (Inl (Status InvalidArgument ''failed to unmarshal configuration'' err)), w)
         | Inr cfg \<Rightarrow>
             (case setupConfig env instance configName cfg w of
                (Panics, w') \<Rightarrow> (Panics, w')
              | (Returns (Some err), w') \<Rightarrow>
                  (Returns (Inl (Status Internal ''failed to setup configuration'' err)), w')
              | (Returns None, w') \<Rightarrow> (Returns (Inr ()), w')))"

subsection \<open>Runs of the service\<close>

text \<open>
  The service as a whole: \<^verbatim>\<open>SetupConfig\<close> calls arrive, and supervisor goroutines that
  were started run to their return. The registry is touched only between \<open>Lock\<close> and
  \<open>Unlock\<close>, so its history is a sequence of whole calls. A supervisor step is taken
  only for a goroutine that was started and has not returned, and only when the loop
  returns under the observations given; it then leaves the set of running goroutines.
  A \<open>SetupConfig\<close> call that panics leaves the events it made before the panic.
\<close>

datatype action =
    DoSetup setup_env SetupConfigRequest
  | DoSupervise ctx_id importHolder conn_id "iter_obs list"

fun step :: "action \<Rightarrow> world \<Rightarrow> world" where
  "step (DoSetup env req) w = snd (SetupConfig env req w)"
| "step (DoSupervise ctx holder client obs) w =
     (if (ctx, holder, client) \<in> set (running w)
      then (case runBirdImportLoop ctx holder client obs w of
              None \<Rightarrow> w
            | Some (e, w') \<Rightarrow> w'\<lparr>running := remove1 (ctx, holder, client) (running w')\<rparr>)
      else w)"

definition exec :: "action list \<Rightarrow> world \<Rightarrow> world" where
  "exec acts w = fold step acts w"

text \<open>The holder of the last \<open>Store\<close> under a key in a trace, if any.\<close>

fun lastStored :: "instanceKey \<Rightarrow> event list \<Rightarrow> importHolder option" where
  "lastStored k [] = None"
| "lastStored k (Store k' h # es) =
     (case lastStored k es of
        Some h' \<Rightarrow> Some h'
      | None \<Rightarrow> if k' = k then Some h else None)"
| "lastStored k (e # es) = lastStored k es"

subsection \<open>Auxiliary functions for stating and proving the properties\<close>

text \<open>
  The errors of the failed ticks a list of rounds starts with, and the rounds after
  them.
\<close>

fun failedTicks :: "tick_obs list \<Rightarrow> error list" where
  "failedTicks (SelTick (Inl e) # obs) = e # failedTicks obs"
| "failedTicks obs = []"

fun afterFailed :: "tick_obs list \<Rightarrow> tick_obs list" where
  "afterFailed (SelTick (Inl e) # obs) = afterFailed obs"
| "afterFailed obs = obs"

text \<open>The events a supervisor's loop can produce before its deferred cleanup.\<close>

fun loopEvent :: "event \<Rightarrow> bool" where
  "loopEvent (FeedRIB c x) = True"
| "loopEvent (Run ex x) = True"
| "loopEvent (CloseAndRecv s) = True"
| "loopEvent BackoffReset = True"
| "loopEvent NextBackOff = True"
| "loopEvent e = False"

text \<open>
  A state differs from an earlier one by a supervisor's loop: more events of the loop
  in the trace, perhaps other streams in the stream variables, and nothing else.
\<close>

definition loopStep :: "world \<Rightarrow> world \<Rightarrow> bool" where
  "loopStep w w' \<longleftrightarrow>
     m_imports w' = m_imports w \<and> nextId w' = nextId w \<and> running w' = running w
     \<and> take (length (trace w)) (trace w') = trace w
     \<and> list_all loopEvent (drop (length (trace w)) (trace w'))"

text \<open>The events of the static-route prelude of \<open>setupConfig\<close>.\<close>

fun preludeEvent :: "event \<Rightarrow> bool" where
  "preludeEvent (NewClient c) = True"
| "preludeEvent (InsertRoute c t p n) = True"
| "preludeEvent (FlushRoutes c t) = True"
| "preludeEvent e = False"

definition insertEvents :: "conn_id \<Rightarrow> TargetModule \<Rightarrow> Route list \<Rightarrow> event list" where
  "insertEvents c target routes = map (\<lambda>r. InsertRoute c target (Prefix r) (Nexthop r)) routes"

text \<open>
  A configuration with two static routes and no BIRD socket, one with a socket, and
  one whose \<^verbatim>\<open>bird_import\<close> section is null.
\<close>

definition cfgStatic :: Config where
  "cfgStatic =
     \<lparr>Routes = [\<lparr>Prefix = ''10.0.0.0/24'', Nexthop = ''192.0.2.1''\<rparr>,
                \<lparr>Prefix = ''10.0.1.0/24'', Nexthop = ''192.0.2.2''\<rparr>],
      BirdImport = Some \<lparr>Sockets = [], tuning = []\<rparr>\<rparr>"

definition cfgBird :: Config where
  "cfgBird =
     \<lparr>Routes = [\<lparr>Prefix = ''10.0.0.0/24'', Nexthop = ''192.0.2.1''\<rparr>],
      BirdImport = Some \<lparr>Sockets = [''/run/bird.sock''], tuning = []\<rparr>\<rparr>"

definition cfgNull :: Config where
  "cfgNull =
     \<lparr>Routes = [\<lparr>Prefix = ''10.0.0.0/24'', Nexthop = ''192.0.2.1''\<rparr>],
      BirdImport = None\<rparr>"

text \<open>An environment in which everything succeeds; the first stream gets the handle 7.\<close>

definition envOk :: setup_env where
  "envOk = \<lparr>yamlUnmarshal = (\<lambda>raw. if raw = ''bird'' then Inr cfgBird else Inr cfgStatic),
            dialErr = None, insertErr = (\<lambda>_. None), flushErr = None, feedRes = Inr 7\<rparr>"

text \<open>
  The key and the holder that \<open>processBirdImport\<close> builds, and the events of stopping
  the predecessor found under the key, if any.
\<close>

definition keyOf :: "TargetModule \<Rightarrow> instanceKey" where
  "keyOf target = \<lparr>name = ConfigName target, dataplaneInstance = DataplaneInstance target\<rparr>"

definition newHolder ::
  "bird_Config option \<Rightarrow> ctx_id \<Rightarrow> conn_id \<Rightarrow> addr \<Rightarrow> importHolder" where
  "newHolder cfg streamCtx c p =
     \<lparr>export = Some (NewExportReader cfg), cancel = Some streamCtx, conn = Some c,
      currentStream = p\<rparr>"

definition stopEvents :: "importHolder option \<Rightarrow> event list" where
  "stopEvents old =
     (case old of
        None \<Rightarrow> []
      | Some oldHolder \<Rightarrow>
          (case cancel oldHolder of None \<Rightarrow> [] | Some c \<Rightarrow> [CancelCtx c])
          @ (case conn oldHolder of None \<Rightarrow> [] | Some k \<Rightarrow> [ConnClose k]))"

text \<open>The two unary RPCs of the static-route prelude.\<close>

fun staticRPC :: "event \<Rightarrow> bool" where
  "staticRPC (InsertRoute c t p n) = True"
| "staticRPC (FlushRoutes c t) = True"
| "staticRPC e = False"

text \<open>Requests for the two sample configurations under the key \<open>(a, 1)\<close>.\<close>

definition reqStatic :: SetupConfigRequest where
  "reqStatic = \<lparr>req_Instance = 1, req_ConfigName = ''a'', req_Config = ''static''\<rparr>"

definition reqBird :: SetupConfigRequest where
  "reqBird = \<lparr>req_Instance = 1, req_ConfigName = ''a'', req_Config = ''bird''\<rparr>"

text \<open>
  Two iterations of a supervisor: the reader fails with \<open>EOF\<close> and the backoff timer
  fires; then the stream is re-opened (handle 9) and the reader returns nil.
\<close>

definition obFail :: iter_obs where
  "obFail = \<lparr>pre = PreDefault, connState = Ready, reconnect = [],
             runErr = Some (Opaque ''EOF''), closeRecvErr = None, idle = False,
             wake = WakeTimer\<rparr>"

definition obClean :: iter_obs where
  "obClean = \<lparr>pre = PreDefault, connState = Ready, reconnect = [SelTick (Inr 9)],
              runErr = None, closeRecvErr = None, idle = False, wake = WakeTimer\<rparr>"

text \<open>An iteration whose first \<^verbatim>\<open>select\<close> finds the context done.\<close>

definition obDone :: iter_obs where
  "obDone = \<lparr>pre = PreCtxDone, connState = Ready, reconnect = [],
             runErr = None, closeRecvErr = None, idle = False, wake = WakeTimer\<rparr>"

subsection \<open>Invariants of the runs\<close>

text \<open>Events that neither cancel a context nor write the registry.\<close>

fun harmless :: "event \<Rightarrow> bool" where
  "harmless (CancelCtx c) = False"
| "harmless (Store k h) = False"
| "harmless e = True"

text \<open>
  How often the cancel function of context \<open>c\<close> has been invoked; whether a holder with
  this context is in the registry; whether the supervisor started with it is still
  running.
\<close>

definition cancels :: "ctx_id \<Rightarrow> world \<Rightarrow> nat" where
  "cancels c w = count_list (trace w) (CancelCtx c)"

definition installed :: "ctx_id \<Rightarrow> world \<Rightarrow> bool" where
  "installed c w \<longleftrightarrow> (\<exists>k h. m_imports w k = Some h \<and> cancel h = Some c)"

definition supervised :: "ctx_id \<Rightarrow> world \<Rightarrow> bool" where
  "supervised c w \<longleftrightarrow> c \<in> fst ` set (running w)"

text \<open>
  The shape of the states a run can reach: every holder of the registry has its cancel
  function and its connection, with a context that was allocated; no context is under
  two keys; every running supervisor was started with the context and the connection
  of its holder, and no two with the same context.
\<close>

definition wellFormed :: "world \<Rightarrow> bool" where
  "wellFormed w \<longleftrightarrow>
     (\<forall>k h. m_imports w k = Some h \<longrightarrow>
        (\<exists>c cn. cancel h = Some c \<and> conn h = Some cn \<and> c < nextId w))
     \<and> (\<forall>k k' h h'. m_imports w k = Some h \<and> m_imports w k' = Some h'
            \<and> cancel h = cancel h' \<longrightarrow> k = k')
     \<and> (\<forall>g \<in> set (running w).
            cancel (fst (snd g)) = Some (fst g) \<and> conn (fst (snd g)) = Some (snd (snd g))
            \<and> fst g < nextId w)
     \<and> distinct (map fst (running w))"

text \<open>
  The budget of cancellations of a context: two, of which one is held back while a
  holder with the context is in the registry and one while its supervisor runs; a
  context not yet allocated has none.
\<close>

definition cancelBudget :: "world \<Rightarrow> bool" where
  "cancelBudget w \<longleftrightarrow>
     (\<forall>c. cancels c w + (if installed c w then 1 else 0) + (if supervised c w then 1 else 0)
            \<le> 2)
     \<and> (\<forall>c. nextId w \<le> c \<longrightarrow> cancels c w = 0)"

text \<open>
  The state after a setup that installs an import, as an update of the state before:
  \<open>es\<close> are the events of the prelude, the connection, the context and the stream
  variable take the next three fresh identities.
\<close>

definition installWorld ::
  "world \<Rightarrow> event list \<Rightarrow> bird_Config option \<Rightarrow> TargetModule \<Rightarrow> stream_id \<Rightarrow> world" where
  "installWorld w es cfg target stream =
     (let c = nextId w;
          streamCtx = Suc c;
          p = Suc streamCtx;
          holder = newHolder cfg streamCtx c p
      in w\<lparr>m_imports := (m_imports w)(keyOf target \<mapsto> holder),
           slots := (slots w)(p := stream),
           nextId := Suc p,
           running := running w @ [(streamCtx, holder, c)],
           trace := trace w @ es @ [FeedRIB c streamCtx, Lock]
                    @ stopEvents (m_imports w (keyOf target))
                    @ [Store (keyOf target) holder, Go streamCtx holder c, Unlock]\<rparr>)"

subsection \<open>Sample inputs\<close>

definition tgt :: TargetModule where
  "tgt = \<lparr>ConfigName = ''a'', DataplaneInstance = 1\<rparr>"

definition routeA :: rib_Route where
  "routeA = \<lparr>rib_Prefix = ''10.0.0.0/24'', ToRemove = False, attrs = []\<rparr>"

definition routeB :: rib_Route where
  "routeB = \<lparr>rib_Prefix = ''10.0.1.0/24'', ToRemove = True, attrs = []\<rparr>"

definition holderA :: importHolder where
  "holderA = \<lparr>export = Some (NewExportReader (Some \<lparr>Sockets = [''bird.sock''], tuning = []\<rparr>)),
               cancel = Some 1, conn = Some 0, currentStream = 2\<rparr>"

text \<open>
  The holder and the state after one successful \<open>SetupConfig\<close> of the configuration
  with a BIRD socket on a fresh service: connection 0, context 1, stream variable 2.
\<close>

definition holder1 :: importHolder where
  "holder1 = newHolder (BirdImport cfgBird) 1 0 2"

definition world1 :: world where
  "world1 =
     \<lparr>m_imports = [keyOf tgt \<mapsto> holder1],
      slots = (\<lambda>_. 0)(2 := 7),
      nextId = 3,
      running = [(1, holder1, 0)],
      trace = [NewClient 0, InsertRoute 0 tgt ''10.0.0.0/24'' ''192.0.2.1'', FlushRoutes 0 tgt,
               FeedRIB 0 1, Lock, Store (keyOf tgt) holder1, Go 1 holder1 0, Unlock]\<rparr>"

section \<open>Properties\<close>

subsection \<open>Basic facts\<close>

lemma errors_Is_refl: "errors_Is e e"
  by (cases e) simp_all

lemma slots_emit [simp]: "slots (emit es w) = slots w"
  by (simp add: emit_def)

lemma m_imports_emit [simp]: "m_imports (emit es w) = m_imports w"
  by (simp add: emit_def)

lemma nextId_emit [simp]: "nextId (emit es w) = nextId w"
  by (simp add: emit_def)

lemma running_emit [simp]: "running (emit es w) = running w"
  by (simp add: emit_def)

lemma trace_emit [simp]: "trace (emit es w) = trace w @ es"
  by (simp add: emit_def)

lemma emit_emit [simp]: "emit es (emit ds w) = emit (ds @ es) w"
  by (simp add: emit_def)

lemma emit_Nil [simp]: "emit [] w = w"
  by (simp add: emit_def)

subsection \<open>The update forwarder\<close>

text \<open>
  As long as no poll finds the context done and no \<open>Send\<close> fails, the loop sends the
  routes one by one, in order, on the stream that \<open>currentStream\<close> points to.
\<close>

lemma onUpdate_from_sent:
  assumes "i \<le> length routes" "idx \<le> i"
    and "\<And>j. idx \<le> j \<Longrightarrow> j < i \<Longrightarrow> ctxErr env j = None \<and> sendErr env j = None"
  shows "onUpdate_from env target holder routes idx w =
         onUpdate_from env target holder routes i
           (emit (map (\<lambda>k. Send (slots w (currentStream holder)) (mkUpdate target (routes ! k)))
                    [idx..<i]) w)"
  using assms
proof (induction "i - idx" arbitrary: idx w)
  case 0
  then show ?case by simp
next
  case (Suc n)
  let ?s = "Send (slots w (currentStream holder)) (mkUpdate target (routes ! idx))"
  from Suc have lt: "idx < i" "idx < length routes" by auto
  have ok: "ctxErr env idx = None" "sendErr env idx = None"
    using Suc.prems(3)[of idx] lt by auto
  have "onUpdate_from env target holder routes idx w =
        onUpdate_from env target holder routes (Suc idx) (emit [?s] w)"
    by (subst onUpdate_from.simps) (simp add: lt ok Let_def)
  also have "\<dots> = onUpdate_from env target holder routes i
          (emit (map (\<lambda>k. Send (slots w (currentStream holder)) (mkUpdate target (routes ! k)))
                   [Suc idx..<i]) (emit [?s] w))"
    using Suc.hyps(1)[of "Suc idx" "emit [?s] w"] Suc.hyps(2) Suc.prems lt by simp
  finally show ?case using lt by (simp add: upt_conv_Cons)
qed

text \<open>
  Claim C10. Called with an empty batch, \<open>onUpdate\<close> returns nil and leaves the whole
  state as it was: nothing is sent, the stream is neither closed nor read. This holds
  for every environment, so also when every poll of the context would find it
  cancelled: the poll sits inside the loop over the routes.
\<close>

theorem onUpdate_empty_batch:
  "onUpdate env target holder [] w = (None, w)"
  by (simp add: onUpdate_def onUpdate_from.simps)

text \<open>The same with a context that is cancelled from the start.\<close>

theorem onUpdate_empty_batch_cancelled:
  "onUpdate \<lparr>ctxErr = (\<lambda>_. Some Canceled), sendErr = (\<lambda>_. None), closeErr = None\<rparr>
     tgt holderA [] NewModuleService = (None, NewModuleService)"
  by (rule onUpdate_empty_batch)

text \<open>
  Claim C3. The context is polled before each route is sent. When the poll before
  route \<open>i\<close> finds it done (the routes before \<open>i\<close> having been sent), route \<open>i\<close> is not
  sent: \<open>onUpdate\<close> calls \<open>CloseAndRecv\<close> on the current stream and returns the join of
  the context's error, the error of the close (if any) and the sentinel
  \<open>errStreamClosed\<close>; \<^verbatim>\<open>errors.Is\<close> finds each of them in the result.
\<close>

theorem onUpdate_cancelled:
  assumes "i < length routes"
    and "\<forall>j<i. ctxErr env j = None \<and> sendErr env j = None"
    and "ctxErr env i = Some cerr"
  shows "\<exists>e. onUpdate env target holder routes w =
           (Some e,
            emit (map (\<lambda>k. Send (slots w (currentStream holder)) (mkUpdate target (routes ! k)))
                    [0..<i]
                  @ [CloseAndRecv (slots w (currentStream holder))]) w)
         \<and> Some e = errors_Join [Some cerr, closeErr env, Some errStreamClosed]
         \<and> errors_Is e cerr \<and> errors_Is e errStreamClosed
         \<and> (case closeErr env of None \<Rightarrow> True | Some cle \<Rightarrow> errors_Is e cle)"
proof -
  let ?ss = "map (\<lambda>k. Send (slots w (currentStream holder)) (mkUpdate target (routes ! k))) [0..<i]"
  have "onUpdate env target holder routes w =
        onUpdate_from env target holder routes i (emit ?ss w)"
    unfolding onUpdate_def using assms(1,2) by (intro onUpdate_from_sent) auto
  also have "\<dots> = (errors_Join [Some cerr, closeErr env, Some errStreamClosed],
                   emit (?ss @ [CloseAndRecv (slots w (currentStream holder))]) w)"
    by (subst onUpdate_from.simps) (simp add: assms)
  finally have run: "onUpdate env target holder routes w =
      (errors_Join [Some cerr, closeErr env, Some errStreamClosed],
       emit (?ss @ [CloseAndRecv (slots w (currentStream holder))]) w)" .
  show ?thesis
  proof (cases "closeErr env")
    case None
    then have "errors_Join [Some cerr, closeErr env, Some errStreamClosed]
               = Some (Joined [cerr, errStreamClosed])"
      by (simp add: errors_Join_def List.map_filter_simps)
    with run None show ?thesis by (simp add: errors_Is_refl)
  next
    case (Some cle)
    then have "errors_Join [Some cerr, closeErr env, Some errStreamClosed]
               = Some (Joined [cerr, cle, errStreamClosed])"
      by (simp add: errors_Join_def List.map_filter_simps)
    with run Some show ?thesis by (simp add: errors_Is_refl)
  qed
qed

text \<open>
  A batch of two routes, the context cancelled before the second, the close failing:
  one \<open>Send\<close>, then \<open>CloseAndRecv\<close>, and the three errors joined.
\<close>

theorem onUpdate_cancelled_witness:
  "onUpdate \<lparr>ctxErr = (\<lambda>i. if i = 1 then Some Canceled else None), sendErr = (\<lambda>_. None),
             closeErr = Some (Opaque ''EOF'')\<rparr>
     tgt holderA [routeA, routeB] NewModuleService
   = (Some (Joined [Canceled, Opaque ''EOF'', errStreamClosed]),
      emit [Send 0 (mkUpdate tgt routeA), CloseAndRecv 0] NewModuleService)"
  using onUpdate_cancelled [of 1 "[routeA, routeB]"
      "\<lparr>ctxErr = (\<lambda>i. if i = 1 then Some Canceled else None), sendErr = (\<lambda>_. None),
        closeErr = Some (Opaque ''EOF'')\<rparr>" Canceled tgt holderA NewModuleService]
  by (simp add: errors_Join_def List.map_filter_simps NewModuleService_def)

text \<open>
  Claim C6, as the code has it. When the \<open>Send\<close> of route \<open>i\<close> fails (the context not
  done at any poll so far, the routes before \<open>i\<close> sent), \<open>onUpdate\<close> returns the error
  of \<open>Send\<close> wrapped by \<^verbatim>\<open>fmt.Errorf\<close> with the message naming the route's prefix, so
  \<^verbatim>\<open>errors.Is\<close> still finds the error of \<open>Send\<close> in it; route \<open>i\<close> was sent once, no
  later route is sent and the stream is not closed.
\<close>

theorem onUpdate_send_failed:
  assumes "i < length routes"
    and "\<forall>j<i. ctxErr env j = None \<and> sendErr env j = None"
    and "ctxErr env i = None"
    and "sendErr env i = Some err"
  shows "onUpdate env target holder routes w =
           (Some (Wrapped (sendFailed (routes ! i)) err),
            emit (map (\<lambda>k. Send (slots w (currentStream holder)) (mkUpdate target (routes ! k)))
                    [0..<Suc i]) w)
         \<and> errors_Is (Wrapped (sendFailed (routes ! i)) err) err"
proof -
  let ?ss = "map (\<lambda>k. Send (slots w (currentStream holder)) (mkUpdate target (routes ! k))) [0..<i]"
  have "onUpdate env target holder routes w =
        onUpdate_from env target holder routes i (emit ?ss w)"
    unfolding onUpdate_def using assms(1,2) by (intro onUpdate_from_sent) auto
  also have "\<dots> = (Some (Wrapped (sendFailed (routes ! i)) err),
                   emit (?ss @ [Send (slots w (currentStream holder)) (mkUpdate target (routes ! i))]) w)"
    by (subst onUpdate_from.simps) (simp add: assms)
  finally show ?thesis by (simp add: errors_Is_refl)
qed

text \<open>The first \<open>Send\<close> of a batch of two fails with \<open>EOF\<close>.\<close>

theorem onUpdate_send_failed_witness:
  "onUpdate \<lparr>ctxErr = (\<lambda>_. None), sendErr = (\<lambda>_. Some (Opaque ''EOF'')), closeErr = None\<rparr>
     tgt holderA [routeA, routeB] NewModuleService
   = (Some (Wrapped ''send BIRD route update for 10.0.0.0/24 failed'' (Opaque ''EOF'')),
      emit [Send 0 (mkUpdate tgt routeA)] NewModuleService)"
  using onUpdate_send_failed [of 0 "[routeA, routeB]"
      "\<lparr>ctxErr = (\<lambda>_. None), sendErr = (\<lambda>_. Some (Opaque ''EOF'')), closeErr = None\<rparr>"
      "Opaque ''EOF''" tgt holderA NewModuleService]
  by (simp add: sendFailed_def routeA_def NewModuleService_def)

text \<open>
  The value returned is not the error of \<open>Send\<close> itself: with \<open>Send\<close> failing with
  \<open>EOF\<close> on the only route, \<open>onUpdate\<close> does not return \<open>EOF\<close>.
\<close>

theorem onUpdate_send_verbatim_counterexample:
  "fst (onUpdate \<lparr>ctxErr = (\<lambda>_. None), sendErr = (\<lambda>_. Some (Opaque ''EOF'')), closeErr = None\<rparr>
          tgt holderA [routeA] NewModuleService)
   \<noteq> Some (Opaque ''EOF'')"
  by (simp add: onUpdate_def onUpdate_from.simps)

subsection \<open>The stream reconnector\<close>

lemma reconnectStream_failed_ticks:
  "reconnectStream ctx client p (map (\<lambda>e. SelTick (Inl e)) errs @ rest) w =
   reconnectStream ctx client p rest (emit (replicate (length errs) (FeedRIB client ctx)) w)"
proof (induction errs arbitrary: w)
  case Nil
  show ?case by simp
next
  case (Cons e errs)
  show ?case by (simp add: Cons.IH replicate_append_same [symmetric] del: replicate_append_same)
qed

lemma reconnectStream_all_failed:
  "reconnectStream ctx client p (map (\<lambda>e. SelTick (Inl e)) errs) w = None"
  using reconnectStream_failed_ticks [of ctx client p errs "[]" w] by simp

lemma reconnectStream_ok: "reconnectStream ctx client p (map (\<lambda>e. SelTick (Inl e)) errs @ SelTick (Inr s) # rest) w
        = Some (True, (emit (replicate (Suc (length errs)) (FeedRIB client ctx)) w)
                   \<lparr>slots := (slots w)(p := s)\<rparr>)"
    by (simp add: reconnectStream_failed_ticks replicate_append_same)
lemma reconnectStream_quit: "reconnectStream ctx client p (map (\<lambda>e. SelTick (Inl e)) errs @ SelQuit # rest) w
        = Some (False, emit (replicate (length errs) (FeedRIB client ctx)) w)"
    by (simp add: reconnectStream_failed_ticks)
lemma reconnectStream_ctx_done: "reconnectStream ctx client p (map (\<lambda>e. SelTick (Inl e)) errs @ SelCtxDone # rest) w
        = Some (False, emit (replicate (length errs) (FeedRIB client ctx)) w)"
    by (simp add: reconnectStream_failed_ticks)


lemma failedTicks_afterFailed:
  "obs = map (\<lambda>e. SelTick (Inl e)) (failedTicks obs) @ afterFailed obs"
  by (induction obs rule: failedTicks.induct) simp_all

lemma afterFailed_head:
  "afterFailed obs = ob # rest \<Longrightarrow>
   ob = SelQuit \<or> ob = SelCtxDone \<or> (\<exists>s. ob = SelTick (Inr s))"
  by (induction obs rule: afterFailed.induct) auto

lemma tick_obs_split:
  "(\<exists>errs. obs = map (\<lambda>e. SelTick (Inl e)) errs) \<or>
   (\<exists>errs ob rest. obs = map (\<lambda>e. SelTick (Inl e)) errs @ ob # rest
      \<and> (ob = SelQuit \<or> ob = SelCtxDone \<or> (\<exists>s. ob = SelTick (Inr s))))"
proof (cases "afterFailed obs")
  case Nil
  with failedTicks_afterFailed [of obs]
  have "obs = map (\<lambda>e. SelTick (Inl e)) (failedTicks obs)" by simp
  then have "\<exists>errs. obs = map (\<lambda>e. SelTick (Inl e)) errs" by (rule exI)
  then show ?thesis by (rule disjI1)
next
  case (Cons ob rest)
  with failedTicks_afterFailed [of obs] afterFailed_head [of obs ob rest]
  have "obs = map (\<lambda>e. SelTick (Inl e)) (failedTicks obs) @ ob # rest
      \<and> (ob = SelQuit \<or> ob = SelCtxDone \<or> (\<exists>s. ob = SelTick (Inr s)))" by simp
  then have "\<exists>errs ob rest. obs = map (\<lambda>e. SelTick (Inl e)) errs @ ob # rest
      \<and> (ob = SelQuit \<or> ob = SelCtxDone \<or> (\<exists>s. ob = SelTick (Inr s)))"
    by (intro exI)
  then show ?thesis by (rule disjI2)
qed

lemma reconnectStream_cases:
  assumes r: "reconnectStream ctx client p obs w = Some (b, w')"
  shows "(b \<and> (\<exists>errs s rest. obs = map (\<lambda>e. SelTick (Inl e)) errs @ SelTick (Inr s) # rest
                 \<and> w' = (emit (replicate (Suc (length errs)) (FeedRIB client ctx)) w)
                           \<lparr>slots := (slots w)(p := s)\<rparr>))
           \<or> (\<not> b \<and> (\<exists>errs ob rest. obs = map (\<lambda>e. SelTick (Inl e)) errs @ ob # rest
                 \<and> (ob = SelQuit \<or> ob = SelCtxDone)
                 \<and> w' = emit (replicate (length errs) (FeedRIB client ctx)) w))"
proof -
  from tick_obs_split [of obs] show ?thesis
  proof (elim disjE exE conjE)
    fix errs assume "obs = map (\<lambda>e. SelTick (Inl e)) errs"
    then have "reconnectStream ctx client p obs w = None"
      by (simp only: reconnectStream_all_failed)
    with r show ?thesis by simp
  next
    fix errs ob rest
    assume o: "obs = map (\<lambda>e. SelTick (Inl e)) errs @ ob # rest" and q: "ob = SelQuit"
    have "reconnectStream ctx client p obs w
            = Some (False, emit (replicate (length errs) (FeedRIB client ctx)) w)"
      unfolding o q by (rule reconnectStream_quit)
    with r have "\<not> b" and "w' = emit (replicate (length errs) (FeedRIB client ctx)) w"
      by simp_all
    with o q have nb: "\<not> b" and "obs = map (\<lambda>e. SelTick (Inl e)) errs @ ob # rest
                 \<and> (ob = SelQuit \<or> ob = SelCtxDone)
                 \<and> w' = emit (replicate (length errs) (FeedRIB client ctx)) w" by simp_all
    then have "\<exists>errs ob rest. obs = map (\<lambda>e. SelTick (Inl e)) errs @ ob # rest
                 \<and> (ob = SelQuit \<or> ob = SelCtxDone)
                 \<and> w' = emit (replicate (length errs) (FeedRIB client ctx)) w"
      by (intro exI)
    with nb show ?thesis by (intro disjI2 conjI)
  next
    fix errs ob rest
    assume o: "obs = map (\<lambda>e. SelTick (Inl e)) errs @ ob # rest" and q: "ob = SelCtxDone"
    have "reconnectStream ctx client p obs w
            = Some (False, emit (replicate (length errs) (FeedRIB client ctx)) w)"
      unfolding o q by (rule reconnectStream_ctx_done)
    with r have "\<not> b" and "w' = emit (replicate (length errs) (FeedRIB client ctx)) w"
      by simp_all
    with o q have nb: "\<not> b" and "obs = map (\<lambda>e. SelTick (Inl e)) errs @ ob # rest
                 \<and> (ob = SelQuit \<or> ob = SelCtxDone)
                 \<and> w' = emit (replicate (length errs) (FeedRIB client ctx)) w" by simp_all
    then have "\<exists>errs ob rest. obs = map (\<lambda>e. SelTick (Inl e)) errs @ ob # rest
                 \<and> (ob = SelQuit \<or> ob = SelCtxDone)
                 \<and> w' = emit (replicate (length errs) (FeedRIB client ctx)) w"
      by (intro exI)
    with nb show ?thesis by (intro disjI2 conjI)
  next
    fix errs ob rest s
    assume o: "obs = map (\<lambda>e. SelTick (Inl e)) errs @ ob # rest" and q: "ob = SelTick (Inr s)"
    have "reconnectStream ctx client p obs w
            = Some (True, (emit (replicate (Suc (length errs)) (FeedRIB client ctx)) w)
                       \<lparr>slots := (slots w)(p := s)\<rparr>)"
      unfolding o q by (rule reconnectStream_ok)
    with r have "b" and "w' = (emit (replicate (Suc (length errs)) (FeedRIB client ctx)) w)
                       \<lparr>slots := (slots w)(p := s)\<rparr>"
      by simp_all
    with o q have tb: "b" and "obs = map (\<lambda>e. SelTick (Inl e)) errs @ SelTick (Inr s) # rest
                 \<and> w' = (emit (replicate (Suc (length errs)) (FeedRIB client ctx)) w)
                           \<lparr>slots := (slots w)(p := s)\<rparr>" by simp_all
    then have "\<exists>errs s rest. obs = map (\<lambda>e. SelTick (Inl e)) errs @ SelTick (Inr s) # rest
                 \<and> w' = (emit (replicate (Suc (length errs)) (FeedRIB client ctx)) w)
                           \<lparr>slots := (slots w)(p := s)\<rparr>"
      by (intro exI)
    with tb show ?thesis by (intro disjI1 conjI)
  qed
qed


text \<open>
  Claim C8. \<open>reconnectStream\<close> returns true exactly when a \<open>FeedRIB\<close> call succeeds
  (after any number of failed calls, and before the quit channel or the context was
  selected), and the state it leaves has the new stream written into the variable \<open>p\<close>
  points to. It returns false exactly when the quit channel or the context is selected
  first (after failed calls only), and then the stream variables are as they were. In
  both cases the only events are the \<open>FeedRIB\<close> calls.
\<close>

theorem reconnectStream_returns:
  "(reconnectStream ctx client p obs w = Some (True, w') \<longleftrightarrow>
      (\<exists>errs s rest. obs = map (\<lambda>e. SelTick (Inl e)) errs @ SelTick (Inr s) # rest
         \<and> w' = (emit (replicate (Suc (length errs)) (FeedRIB client ctx)) w)
                   \<lparr>slots := (slots w)(p := s)\<rparr>))
   \<and> (reconnectStream ctx client p obs w = Some (False, w') \<longleftrightarrow>
      (\<exists>errs ob rest. obs = map (\<lambda>e. SelTick (Inl e)) errs @ ob # rest
         \<and> (ob = SelQuit \<or> ob = SelCtxDone)
         \<and> w' = emit (replicate (length errs) (FeedRIB client ctx)) w
         \<and> slots w' = slots w))"
proof (rule conjI)
  show "reconnectStream ctx client p obs w = Some (True, w') \<longleftrightarrow>
      (\<exists>errs s rest. obs = map (\<lambda>e. SelTick (Inl e)) errs @ SelTick (Inr s) # rest
         \<and> w' = (emit (replicate (Suc (length errs)) (FeedRIB client ctx)) w)
                   \<lparr>slots := (slots w)(p := s)\<rparr>)"
  proof
    assume "reconnectStream ctx client p obs w = Some (True, w')"
    from reconnectStream_cases [OF this] show "\<exists>errs s rest. obs = map (\<lambda>e. SelTick (Inl e)) errs @ SelTick (Inr s) # rest
         \<and> w' = (emit (replicate (Suc (length errs)) (FeedRIB client ctx)) w)
                   \<lparr>slots := (slots w)(p := s)\<rparr>" by simp
  next
    assume "\<exists>errs s rest. obs = map (\<lambda>e. SelTick (Inl e)) errs @ SelTick (Inr s) # rest
         \<and> w' = (emit (replicate (Suc (length errs)) (FeedRIB client ctx)) w)
                   \<lparr>slots := (slots w)(p := s)\<rparr>"
    then obtain errs s rest where
      "obs = map (\<lambda>e. SelTick (Inl e)) errs @ SelTick (Inr s) # rest"
      "w' = (emit (replicate (Suc (length errs)) (FeedRIB client ctx)) w)
                   \<lparr>slots := (slots w)(p := s)\<rparr>" by (elim exE conjE)
    then show "reconnectStream ctx client p obs w = Some (True, w')"
      by (simp only: reconnectStream_ok)
  qed
next
  show "reconnectStream ctx client p obs w = Some (False, w') \<longleftrightarrow>
      (\<exists>errs ob rest. obs = map (\<lambda>e. SelTick (Inl e)) errs @ ob # rest
         \<and> (ob = SelQuit \<or> ob = SelCtxDone)
         \<and> w' = emit (replicate (length errs) (FeedRIB client ctx)) w
         \<and> slots w' = slots w)"
  proof
    assume "reconnectStream ctx client p obs w = Some (False, w')"
    from reconnectStream_cases [OF this] obtain errs ob rest where
      o: "obs = map (\<lambda>e. SelTick (Inl e)) errs @ ob # rest" "ob = SelQuit \<or> ob = SelCtxDone"
      "w' = emit (replicate (length errs) (FeedRIB client ctx)) w" by (elim disjE exE conjE) simp_all
    then have "obs = map (\<lambda>e. SelTick (Inl e)) errs @ ob # rest
         \<and> (ob = SelQuit \<or> ob = SelCtxDone)
         \<and> w' = emit (replicate (length errs) (FeedRIB client ctx)) w
         \<and> slots w' = slots w" by simp
    then show "\<exists>errs ob rest. obs = map (\<lambda>e. SelTick (Inl e)) errs @ ob # rest
         \<and> (ob = SelQuit \<or> ob = SelCtxDone)
         \<and> w' = emit (replicate (length errs) (FeedRIB client ctx)) w
         \<and> slots w' = slots w" by (intro exI)
  next
    assume "\<exists>errs ob rest. obs = map (\<lambda>e. SelTick (Inl e)) errs @ ob # rest
         \<and> (ob = SelQuit \<or> ob = SelCtxDone)
         \<and> w' = emit (replicate (length errs) (FeedRIB client ctx)) w
         \<and> slots w' = slots w"
    then obtain errs ob rest where
      "obs = map (\<lambda>e. SelTick (Inl e)) errs @ ob # rest" "ob = SelQuit \<or> ob = SelCtxDone"
      "w' = emit (replicate (length errs) (FeedRIB client ctx)) w" by (elim exE conjE)
    then show "reconnectStream ctx client p obs w = Some (False, w')"
      using reconnectStream_quit [of ctx client p errs rest w]
        reconnectStream_ctx_done [of ctx client p errs rest w]
      by (elim disjE) simp_all
  qed
qed

text \<open>One failed call, then a successful one; and one failed call, then the context.\<close>

theorem reconnectStream_returns_witness:
  "reconnectStream 1 0 2 [SelTick (Inl (Opaque ''unavailable'')), SelTick (Inr 7), SelQuit]
     NewModuleService
   = Some (True, (emit [FeedRIB 0 1, FeedRIB 0 1] NewModuleService)
                   \<lparr>slots := (slots NewModuleService)(2 := 7)\<rparr>)
   \<and> reconnectStream 1 0 2 [SelTick (Inl (Opaque ''unavailable'')), SelCtxDone, SelTick (Inr 7)]
     NewModuleService
   = Some (False, emit [FeedRIB 0 1] NewModuleService)"
proof (rule conjI)
  let ?w = "(emit [FeedRIB 0 1, FeedRIB 0 1] NewModuleService)
              \<lparr>slots := (slots NewModuleService)(2 := 7)\<rparr>"
  have "[SelTick (Inl (Opaque ''unavailable'')), SelTick (Inr 7), SelQuit]
          = map (\<lambda>e. SelTick (Inl e)) [Opaque ''unavailable''] @ SelTick (Inr 7) # [SelQuit]
        \<and> ?w = (emit (replicate (Suc (length [Opaque ''unavailable''])) (FeedRIB 0 1))
                  NewModuleService)\<lparr>slots := (slots NewModuleService)(2 := 7)\<rparr>"
    by simp
  then have "\<exists>errs s rest.
      [SelTick (Inl (Opaque ''unavailable'')), SelTick (Inr 7), SelQuit]
          = map (\<lambda>e. SelTick (Inl e)) errs @ SelTick (Inr s) # rest
        \<and> ?w = (emit (replicate (Suc (length errs)) (FeedRIB 0 1))
                  NewModuleService)\<lparr>slots := (slots NewModuleService)(2 := s)\<rparr>"
    by (intro exI)
  then show "reconnectStream 1 0 2
      [SelTick (Inl (Opaque ''unavailable'')), SelTick (Inr 7), SelQuit] NewModuleService
      = Some (True, ?w)"
    by (rule reconnectStream_returns [THEN conjunct1, THEN iffD2])
next
  let ?w = "emit [FeedRIB 0 1] NewModuleService"
  have "[SelTick (Inl (Opaque ''unavailable'')), SelCtxDone, SelTick (Inr 7)]
          = map (\<lambda>e. SelTick (Inl e)) [Opaque ''unavailable''] @ SelCtxDone # [SelTick (Inr 7)]
        \<and> (SelCtxDone = SelQuit \<or> SelCtxDone = SelCtxDone)
        \<and> ?w = emit (replicate (length [Opaque ''unavailable'']) (FeedRIB 0 1)) NewModuleService
        \<and> slots ?w = slots NewModuleService"
    by simp
  then have "\<exists>errs ob rest.
      [SelTick (Inl (Opaque ''unavailable'')), SelCtxDone, SelTick (Inr 7)]
          = map (\<lambda>e. SelTick (Inl e)) errs @ ob # rest
        \<and> (ob = SelQuit \<or> ob = SelCtxDone)
        \<and> ?w = emit (replicate (length errs) (FeedRIB 0 1)) NewModuleService
        \<and> slots ?w = slots NewModuleService"
    by (intro exI)
  then show "reconnectStream 1 0 2
      [SelTick (Inl (Opaque ''unavailable'')), SelCtxDone, SelTick (Inr 7)] NewModuleService
      = Some (False, ?w)"
    by (rule reconnectStream_returns [THEN conjunct2, THEN iffD2])
qed

subsection \<open>The supervisor leaves the registry alone\<close>

lemma loopStep_refl [simp]: "loopStep w w"
  by (simp add: loopStep_def)

lemma loopStep_trans: "loopStep w w1 \<Longrightarrow> loopStep w1 w2 \<Longrightarrow> loopStep w w2"
proof -
  assume a: "loopStep w w1" and b: "loopStep w1 w2"
  from a obtain es where es: "trace w1 = trace w @ es" "list_all loopEvent es"
    by (metis append_take_drop_id loopStep_def)
  from b obtain ds where ds: "trace w2 = trace w1 @ ds" "list_all loopEvent ds"
    by (metis append_take_drop_id loopStep_def)
  from a b es ds show ?thesis by (simp add: loopStep_def)
qed

lemma loopStep_emit:
  "list_all loopEvent es \<Longrightarrow> loopStep w (emit es w)"
  by (simp add: loopStep_def)

lemma loopStep_emit_slots:
  "list_all loopEvent es \<Longrightarrow> loopStep w ((emit es w)\<lparr>slots := f\<rparr>)"
  by (simp add: loopStep_def)

lemma loopStep_traceD:
  "loopStep w w' \<Longrightarrow> \<exists>es. trace w' = trace w @ es \<and> list_all loopEvent es"
  by (metis append_take_drop_id loopStep_def)

lemma reconnectStream_loopStep:
  assumes "reconnectStream ctx client p obs w = Some (b, w')"
  shows "loopStep w w'"
  using reconnectStream_cases [OF assms]
  by (elim disjE exE conjE) (simp_all add: loopStep_def list_all_length nth_Cons')

lemma loopStep_emit_trans:
  "loopStep w w1 \<Longrightarrow> list_all loopEvent es \<Longrightarrow> loopStep w (emit es w1)"
  by (rule loopStep_trans [OF _ loopStep_emit])

lemma loopBody_loopStep:
  "loopBody ctx holder client sa ob w = (c, w') \<Longrightarrow> loopStep w w'"
  unfolding loopBody_def Let_def
  by (auto simp: loopStep_emit loopStep_emit_trans
      split: pre_select.splits option.splits if_splits bool.splits wake_select.splits prod.splits
      dest!: reconnectStream_loopStep)


lemma loop_loopStep:
  "loop ctx holder client sa obs w = Some (e, w') \<Longrightarrow> loopStep w w'"
proof (induction obs arbitrary: sa w)
  case Nil
  then show ?case by simp
next
  case (Cons ob obs)
  obtain c w1 where b: "loopBody ctx holder client sa ob w = (c, w1)"
    by (cases "loopBody ctx holder client sa ob w")
  then have s1: "loopStep w w1" by (rule loopBody_loopStep)
  show ?case
  proof (cases c)
    case (Exit x)
    with Cons.prems b s1 show ?thesis by simp
  next
    case (Again sa')
    with Cons.prems b have "loop ctx holder client sa' obs w1 = Some (e, w')" by simp
    then have "loopStep w1 w'" by (rule Cons.IH)
    with s1 show ?thesis by (rule loopStep_trans)
  next
    case Waiting
    with Cons.prems b show ?thesis by simp
  qed
qed

lemma runBirdImportLoop_cleanup:
  assumes "runBirdImportLoop ctx holder client obs w = Some (e, w')"
    and "cancel holder = Some c" and "conn holder = Some k"
  shows "\<exists>w1. loopStep w w1 \<and> w' = emit [CancelCtx c, ConnClose k] w1"
proof -
  from assms obtain e1 w1 where
    l: "loop ctx holder client True obs (emit [BackoffReset] w) = Some (e1, w1)"
    and w': "w' = emit [CancelCtx c, ConnClose k] w1"
    by (auto simp: runBirdImportLoop_def cleanup_def split: option.splits prod.splits)
  have "loopStep w (emit [BackoffReset] w)" by (simp add: loopStep_emit)
  with loop_loopStep [OF l] have "loopStep w w1" by (rule loopStep_trans [rotated])
  with w' show ?thesis by blast
qed

subsection \<open>The setup entrypoint and the registry, step by step\<close>

lemma insertRoutes_ok:
  "(\<And>j. j < length routes \<Longrightarrow> insertErr env (i + j) = None) \<Longrightarrow>
   insertRoutes env c target routes i w = (None, emit (insertEvents c target routes) w)"
proof (induction routes arbitrary: i w)
  case Nil
  show ?case by (simp add: insertEvents_def)
next
  case (Cons r routes)
  from Cons.prems [of 0] have h: "insertErr env i = None" by simp
  have "\<And>j. j < length routes \<Longrightarrow> insertErr env (Suc i + j) = None"
    using Cons.prems [of "Suc _"] by simp
  from Cons.IH [OF this] h show ?case by (simp add: insertEvents_def)
qed

lemma insertRoutes_shape:
  "\<exists>n. snd (insertRoutes env c target routes i w) = emit (insertEvents c target (take n routes)) w"
proof (induction routes arbitrary: i w)
  case Nil
  show ?case by (simp add: insertEvents_def)
next
  case (Cons r routes)
  show ?case
  proof (cases "insertErr env i")
    case (Some err)
    then have "snd (insertRoutes env c target (r # routes) i w)
        = emit (insertEvents c target (take 1 (r # routes))) w"
      by (simp add: insertEvents_def)
    then show ?thesis ..
  next
    case None
    from Cons.IH [of "Suc i" "emit [InsertRoute c target (Prefix r) (Nexthop r)] w"]
    obtain n where "snd (insertRoutes env c target routes (Suc i)
                        (emit [InsertRoute c target (Prefix r) (Nexthop r)] w))
       = emit (insertEvents c target (take n routes))
           (emit [InsertRoute c target (Prefix r) (Nexthop r)] w)" ..
    with None have "snd (insertRoutes env c target (r # routes) i w)
        = emit (insertEvents c target (take (Suc n) (r # routes))) w"
      by (simp add: insertEvents_def)
    then show ?thesis ..
  qed
qed

lemma stopOld_emit: "stopOld oldHolder w = emit (stopEvents (Some oldHolder)) w"
  by (simp add: stopOld_def stopEvents_def Let_def split: option.splits)

lemma processBirdImport_failed:
  "feedRes env = Inl err \<Longrightarrow>
   processBirdImport env c cfg target w =
     (Some (Wrapped ''failed to setup initial BIRD import stream'' err),
      (emit [FeedRIB c (nextId w), CancelCtx (nextId w)] w)\<lparr>nextId := Suc (nextId w)\<rparr>)"
  by (simp add: processBirdImport_def Let_def emit_def)

lemma processBirdImport_installed:
  "feedRes env = Inr stream \<Longrightarrow>
   processBirdImport env c cfg target w =
     (None,
      w\<lparr>m_imports := (m_imports w)(keyOf target \<mapsto> newHolder cfg (nextId w) c (Suc (nextId w))),
        slots := (slots w)(Suc (nextId w) := stream),
        nextId := Suc (Suc (nextId w)),
        running := running w @ [(nextId w, newHolder cfg (nextId w) c (Suc (nextId w)), c)],
        trace := trace w @ [FeedRIB c (nextId w), Lock] @ stopEvents (m_imports w (keyOf target))
                 @ [Store (keyOf target) (newHolder cfg (nextId w) c (Suc (nextId w))),
                    Go (nextId w) (newHolder cfg (nextId w) c (Suc (nextId w))) c, Unlock]\<rparr>)"
  by (simp add: processBirdImport_def Let_def emit_def stopOld_emit keyOf_def newHolder_def
      stopEvents_def split: option.splits)

lemma staticRPC_insertEvents [simp]:
  "filter staticRPC (insertEvents c target routes) = insertEvents c target routes"
  by (induction routes) (simp_all add: insertEvents_def)

lemma staticRPC_stopEvents [simp]: "filter staticRPC (stopEvents old) = []"
  by (simp add: stopEvents_def split: option.splits)

text \<open>
  When \<^verbatim>\<open>grpc.NewClient\<close>, every \<open>InsertRoute\<close> and \<open>FlushRoutes\<close> succeed, \<open>setupConfig\<close>
  issues one \<open>InsertRoute\<close> per static route, in the order of the configuration, and
  then one \<open>FlushRoutes\<close>, and these are all the unary RPCs of the call. What follows
  depends on \<open>BirdImport\<close>: a nil pointer makes the call panic at line 116; with no
  socket the connection is closed and nil returned, and neither the registry nor the
  set of supervisors has changed; otherwise the call goes on with \<open>processBirdImport\<close>.
\<close>

lemma setupConfig_static_prelude:
  assumes "dialErr env = None"
    and "\<forall>i<length (Routes config). insertErr env i = None"
    and "flushErr env = None"
  shows "setupConfig env instance configName config w =
     (let c = nextId w;
          target = \<lparr>ConfigName = configName, DataplaneInstance = instance\<rparr>;
          w3 = emit ([NewClient c] @ insertEvents c target (Routes config) @ [FlushRoutes c target])
                 (w\<lparr>nextId := Suc (nextId w)\<rparr>)
      in case BirdImport config of
           None \<Rightarrow> (Panics, w3)
         | Some birdImport \<Rightarrow>
             if Sockets birdImport = []
             then (Returns None, emit [ConnClose c] w3)
             else (Returns (fst (processBirdImport env c (BirdImport config) target w3)),
                   snd (processBirdImport env c (BirdImport config) target w3)))
     \<and> filter staticRPC (drop (length (trace w))
                           (trace (snd (setupConfig env instance configName config w))))
         = insertEvents (nextId w) \<lparr>ConfigName = configName, DataplaneInstance = instance\<rparr>
             (Routes config)
           @ [FlushRoutes (nextId w) \<lparr>ConfigName = configName, DataplaneInstance = instance\<rparr>]
     \<and> ((\<exists>birdImport. BirdImport config = Some birdImport \<and> Sockets birdImport = []) \<longrightarrow>
          m_imports (snd (setupConfig env instance configName config w)) = m_imports w
          \<and> running (snd (setupConfig env instance configName config w)) = running w)"
proof -
  let ?c = "nextId w"
  let ?t = "\<lparr>ConfigName = configName, DataplaneInstance = instance\<rparr>"
  let ?w3 = "emit ([NewClient ?c] @ insertEvents ?c ?t (Routes config) @ [FlushRoutes ?c ?t])
               (w\<lparr>nextId := Suc (nextId w)\<rparr>)"
  have "insertRoutes env ?c ?t (Routes config) 0 (emit [NewClient ?c] (w\<lparr>nextId := Suc (nextId w)\<rparr>))
        = (None, emit (insertEvents ?c ?t (Routes config))
                   (emit [NewClient ?c] (w\<lparr>nextId := Suc (nextId w)\<rparr>)))"
    using assms(2) by (intro insertRoutes_ok) simp
  then have eq: "setupConfig env instance configName config w =
      (case BirdImport config of
         None \<Rightarrow> (Panics, ?w3)
       | Some birdImport \<Rightarrow>
           if Sockets birdImport = [] then (Returns None, emit [ConnClose ?c] ?w3)
           else (Returns (fst (processBirdImport env ?c (BirdImport config) ?t ?w3)),
                 snd (processBirdImport env ?c (BirdImport config) ?t ?w3)))"
    using assms(1,3)
    by (simp add: setupConfig_def Let_def split: option.splits prod.splits)
  have tr: "filter staticRPC (drop (length (trace w))
              (trace (snd (setupConfig env instance configName config w))))
            = insertEvents ?c ?t (Routes config) @ [FlushRoutes ?c ?t]"
  proof (cases "BirdImport config")
    case None
    with eq show ?thesis by simp
  next
    case (Some birdImport)
    show ?thesis
    proof (cases "Sockets birdImport = []")
      case True
      with eq Some show ?thesis by simp
    next
      case False
      show ?thesis
      proof (cases "feedRes env")
        case (Inl err)
        with eq Some False show ?thesis by (simp add: processBirdImport_failed)
      next
        case (Inr stream)
        with eq Some False show ?thesis by (simp add: processBirdImport_installed)
      qed
    qed
  qed
  have fr: "(\<exists>birdImport. BirdImport config = Some birdImport \<and> Sockets birdImport = []) \<longrightarrow>
          m_imports (snd (setupConfig env instance configName config w)) = m_imports w
          \<and> running (snd (setupConfig env instance configName config w)) = running w"
  proof
    assume "\<exists>birdImport. BirdImport config = Some birdImport \<and> Sockets birdImport = []"
    then obtain birdImport where "BirdImport config = Some birdImport"
      "Sockets birdImport = []" by blast
    then have "setupConfig env instance configName config w
               = (Returns None, emit [ConnClose ?c] ?w3)"
      by (simp add: eq)
    then show "m_imports (snd (setupConfig env instance configName config w)) = m_imports w
          \<and> running (snd (setupConfig env instance configName config w)) = running w"
      by simp
  qed
  have "setupConfig env instance configName config w =
     (let c = nextId w;
          target = \<lparr>ConfigName = configName, DataplaneInstance = instance\<rparr>;
          w3 = emit ([NewClient c] @ insertEvents c target (Routes config) @ [FlushRoutes c target])
                 (w\<lparr>nextId := Suc (nextId w)\<rparr>)
      in case BirdImport config of
           None \<Rightarrow> (Panics, w3)
         | Some birdImport \<Rightarrow>
             if Sockets birdImport = []
             then (Returns None, emit [ConnClose c] w3)
             else (Returns (fst (processBirdImport env c (BirdImport config) target w3)),
                   snd (processBirdImport env c (BirdImport config) target w3)))"
    unfolding Let_def by (rule eq)
  with tr fr show ?thesis by (intro conjI)
qed

text \<open>Two static routes, no socket, everything succeeding.\<close>

lemma setupConfig_static_only:
  "setupConfig envOk 1 ''a'' cfgStatic NewModuleService =
     (Returns None,
      (emit [NewClient 0, InsertRoute 0 tgt ''10.0.0.0/24'' ''192.0.2.1'',
             InsertRoute 0 tgt ''10.0.1.0/24'' ''192.0.2.2'', FlushRoutes 0 tgt,
             ConnClose 0] NewModuleService)\<lparr>nextId := 1\<rparr>)"
  using setupConfig_static_prelude [of envOk cfgStatic 1 "''a''" NewModuleService]
  by (simp add: envOk_def cfgStatic_def insertEvents_def tgt_def NewModuleService_def emit_def
      Let_def)

text \<open>
  Claim C7, on the code. A configuration with one static route whose \<^verbatim>\<open>bird_import\<close>
  section is null has no BIRD socket. With every RPC succeeding the route is inserted
  and flushed, but then \<open>SetupConfig\<close> does not close the connection and return
  success: it panics on the nil pointer at line 116 and the connection stays open.
\<close>

theorem setup_nil_bird_import_panics:
  "SetupConfig (envOk\<lparr>yamlUnmarshal := (\<lambda>_. Inr cfgNull)\<rparr>) reqStatic NewModuleService
     = (Panics,
        (emit [NewClient 0, InsertRoute 0 tgt ''10.0.0.0/24'' ''192.0.2.1'', FlushRoutes 0 tgt]
           NewModuleService)\<lparr>nextId := 1\<rparr>)
   \<and> ConnClose 0 \<notin> set (trace (snd (SetupConfig (envOk\<lparr>yamlUnmarshal := (\<lambda>_. Inr cfgNull)\<rparr>)
                                       reqStatic NewModuleService)))"
  by (simp add: SetupConfig_def setupConfig_def envOk_def cfgNull_def reqStatic_def tgt_def
      NewModuleService_def emit_def Let_def)

text \<open>
  Claim C4, on the code. A configuration with one static route and one BIRD socket,
  the initial \<open>FeedRIB\<close> failing: \<open>SetupConfig\<close> answers \<open>Internal\<close> and the registry
  stays empty, but the only cleanup is the cancellation of the stream context
  (line 151). The connection opened by \<open>setupConfig\<close> is not closed: no \<open>ConnClose\<close>
  is in the trace.
\<close>

theorem setup_stream_open_failure_leaks_conn:
  "fst (SetupConfig (envOk\<lparr>feedRes := Inl (Opaque ''unavailable'')\<rparr>) reqBird NewModuleService)
     = Returns (Inl (Status Internal ''failed to setup configuration''
                (Wrapped ''failed to setup initial BIRD import stream'' (Opaque ''unavailable''))))
   \<and> trace (snd (SetupConfig (envOk\<lparr>feedRes := Inl (Opaque ''unavailable'')\<rparr>) reqBird
                   NewModuleService))
     = [NewClient 0, InsertRoute 0 tgt ''10.0.0.0/24'' ''192.0.2.1'', FlushRoutes 0 tgt,
        FeedRIB 0 1, CancelCtx 1]
   \<and> m_imports (snd (SetupConfig (envOk\<lparr>feedRes := Inl (Opaque ''unavailable'')\<rparr>) reqBird
                       NewModuleService)) = Map.empty
   \<and> ConnClose 0 \<notin> set (trace (snd (SetupConfig (envOk\<lparr>feedRes := Inl (Opaque ''unavailable'')\<rparr>)
                                       reqBird NewModuleService)))"
  by (simp add: SetupConfig_def setupConfig_def processBirdImport_def envOk_def cfgBird_def
      reqBird_def tgt_def NewModuleService_def emit_def Let_def)

subsection \<open>What one step does to the state\<close>

lemma loopEvent_harmless: "loopEvent e \<Longrightarrow> harmless e"
  by (cases e) simp_all

lemma preludeEvent_harmless: "preludeEvent e \<Longrightarrow> harmless e"
  by (cases e) simp_all

lemma harmless_insertEvents [simp]: "list_all harmless (insertEvents c target routes)"
  by (simp add: insertEvents_def list_all_iff)

lemma loopStep_shape:
  assumes "loopStep w w1"
  shows "\<exists>es. list_all harmless es \<and> w1 = (emit es w)\<lparr>slots := slots w1\<rparr>"
proof -
  from loopStep_traceD [OF assms] obtain es where
    es: "trace w1 = trace w @ es" "list_all loopEvent es" by blast
  then have "list_all harmless es"
    by (simp add: list_all_iff loopEvent_harmless)
  moreover from assms es have "w1 = (emit es w)\<lparr>slots := slots w1\<rparr>"
    by (simp add: loopStep_def emit_def)
  ultimately show ?thesis by blast
qed

lemma setupConfig_effect:
  "\<exists>es. list_all harmless es \<and>
     (snd (setupConfig env instance configName config w) = w
      \<or> snd (setupConfig env instance configName config w)
          = (emit es w)\<lparr>nextId := Suc (nextId w)\<rparr>
      \<or> snd (setupConfig env instance configName config w)
          = (emit (es @ [CancelCtx (Suc (nextId w))]) w)\<lparr>nextId := Suc (Suc (nextId w))\<rparr>
      \<or> (\<exists>stream. snd (setupConfig env instance configName config w)
          = installWorld w es (BirdImport config)
              \<lparr>ConfigName = configName, DataplaneInstance = instance\<rparr> stream))"
proof (cases "dialErr env")
  case (Some err)
  then have "snd (setupConfig env instance configName config w) = w"
    by (simp add: setupConfig_def)
  then show ?thesis by (intro exI [of _ "[]"]) simp
next
  case None
  let ?c = "nextId w"
  let ?t = "\<lparr>ConfigName = configName, DataplaneInstance = instance\<rparr>"
  let ?w1 = "emit [NewClient ?c] (w\<lparr>nextId := Suc (nextId w)\<rparr>)"
  obtain r w2 where ir: "insertRoutes env ?c ?t (Routes config) 0 ?w1 = (r, w2)"
    by (cases "insertRoutes env ?c ?t (Routes config) 0 ?w1")
  from insertRoutes_shape [of env ?c ?t "Routes config" 0 ?w1] ir
  obtain n where w2: "w2 = emit (insertEvents ?c ?t (take n (Routes config))) ?w1" by auto
  let ?P = "[NewClient ?c] @ insertEvents ?c ?t (take n (Routes config))"
  have w2': "w2 = (emit ?P w)\<lparr>nextId := Suc (nextId w)\<rparr>"
    unfolding w2 by (simp add: emit_def)
  show ?thesis
  proof (cases r)
    case (Some err)
    with None ir have "snd (setupConfig env instance configName config w) = w2"
      by (simp add: setupConfig_def Let_def)
    with w2' have "list_all harmless ?P \<and> snd (setupConfig env instance configName config w)
          = (emit ?P w)\<lparr>nextId := Suc (nextId w)\<rparr>" by simp
    then show ?thesis by blast
  next
    case rNone: None
    let ?w3 = "emit [FlushRoutes ?c ?t] w2"
    let ?Q = "?P @ [FlushRoutes ?c ?t]"
    have w3: "?w3 = (emit ?Q w)\<lparr>nextId := Suc (nextId w)\<rparr>"
      unfolding w2' by (simp add: emit_def)
    show ?thesis
    proof (cases "flushErr env")
      case (Some err)
      with None ir rNone have "snd (setupConfig env instance configName config w) = ?w3"
        by (simp add: setupConfig_def Let_def)
      with w3 have "list_all harmless ?Q \<and> snd (setupConfig env instance configName config w)
          = (emit ?Q w)\<lparr>nextId := Suc (nextId w)\<rparr>" by simp
      then show ?thesis by blast
    next
      case fNone: None
      show ?thesis
      proof (cases "BirdImport config")
        case bNone: None
        with None ir rNone fNone
        have "snd (setupConfig env instance configName config w) = ?w3"
          by (simp add: setupConfig_def Let_def)
        with w3 have "list_all harmless ?Q \<and> snd (setupConfig env instance configName config w)
          = (emit ?Q w)\<lparr>nextId := Suc (nextId w)\<rparr>" by simp
        then show ?thesis by blast
      next
        case (Some birdImport)
        note bSome = this
      show ?thesis
      proof (cases "Sockets birdImport = []")
        case True
        with None ir rNone fNone bSome
        have "snd (setupConfig env instance configName config w) = emit [ConnClose ?c] ?w3"
          by (simp add: setupConfig_def Let_def)
        with w3 have "list_all harmless (?Q @ [ConnClose ?c])
          \<and> snd (setupConfig env instance configName config w)
               = (emit (?Q @ [ConnClose ?c]) w)\<lparr>nextId := Suc (nextId w)\<rparr>"
          by (simp add: emit_def)
        then show ?thesis by blast
      next
        case False
        with None ir rNone fNone bSome
        have "snd (setupConfig env instance configName config w)
                  = snd (processBirdImport env ?c (BirdImport config) ?t ?w3)"
          by (simp add: setupConfig_def Let_def split: prod.splits)
        then have pb: "snd (setupConfig env instance configName config w)
                  = snd (processBirdImport env ?c (BirdImport config) ?t
                           ((emit ?Q w)\<lparr>nextId := Suc (nextId w)\<rparr>))"
          by (simp only: w3)
        show ?thesis
        proof (cases "feedRes env")
          case (Inl err)
          with pb have "list_all harmless (?Q @ [FeedRIB ?c (Suc ?c)])
            \<and> snd (setupConfig env instance configName config w)
               = (emit ((?Q @ [FeedRIB ?c (Suc ?c)]) @ [CancelCtx (Suc ?c)]) w)
                   \<lparr>nextId := Suc (Suc (nextId w))\<rparr>"
            by (simp add: processBirdImport_failed emit_def)
          then show ?thesis by blast
        next
          case (Inr stream)
          with pb have "list_all harmless ?Q
            \<and> snd (setupConfig env instance configName config w)
               = installWorld w ?Q (BirdImport config) ?t stream"
            by (simp add: processBirdImport_installed installWorld_def emit_def Let_def)
          then show ?thesis by blast
        qed
      qed
      qed
    qed
  qed
qed

lemma SetupConfig_effect:
  "\<exists>es. list_all harmless es \<and>
     (snd (SetupConfig env req w) = w
      \<or> snd (SetupConfig env req w) = (emit es w)\<lparr>nextId := Suc (nextId w)\<rparr>
      \<or> snd (SetupConfig env req w)
          = (emit (es @ [CancelCtx (Suc (nextId w))]) w)\<lparr>nextId := Suc (Suc (nextId w))\<rparr>
      \<or> (\<exists>cfg stream. snd (SetupConfig env req w)
          = installWorld w es cfg
              \<lparr>ConfigName = req_ConfigName req, DataplaneInstance = req_Instance req\<rparr> stream))"
proof (cases "yamlUnmarshal env (req_Config req)")
  case (Inl err)
  then have "snd (SetupConfig env req w) = w" by (simp add: SetupConfig_def)
  then show ?thesis by (intro exI [of _ "[]"]) simp
next
  case (Inr cfg)
  then have "snd (SetupConfig env req w)
             = snd (setupConfig env (req_Instance req) (req_ConfigName req) cfg w)"
    by (simp add: SetupConfig_def Let_def split: prod.splits option.splits outcome.splits)
  with setupConfig_effect [of env "req_Instance req" "req_ConfigName req" cfg w]
  show ?thesis by (elim exE conjE disjE) (simp; blast)+
qed

lemma step_effect:
  assumes "wellFormed w"
  shows "\<exists>es. list_all harmless es \<and>
     ((\<exists>n. nextId w \<le> n \<and> step a w = (emit es w)\<lparr>nextId := n\<rparr>)
      \<or> step a w = (emit (es @ [CancelCtx (Suc (nextId w))]) w)\<lparr>nextId := Suc (Suc (nextId w))\<rparr>
      \<or> (\<exists>cfg target stream. step a w = installWorld w es cfg target stream)
      \<or> (\<exists>ctx h cl sl. (ctx, h, cl) \<in> set (running w)
            \<and> step a w = (emit (es @ [CancelCtx ctx, ConnClose cl]) w)
                           \<lparr>slots := sl, running := remove1 (ctx, h, cl) (running w)\<rparr>))"
proof -
  have same: "\<exists>es. list_all harmless es \<and> (\<exists>n. nextId w \<le> n \<and> w' = (emit es w)\<lparr>nextId := n\<rparr>)"
    if "w' = w" for w'
  proof -
    from that have "list_all harmless [] \<and> nextId w \<le> nextId w \<and> w' = (emit [] w)\<lparr>nextId := nextId w\<rparr>"
      by simp
    then show ?thesis by blast
  qed
  show ?thesis
  proof (cases a)
    case (DoSetup env req)
    from SetupConfig_effect [of env req w] obtain es where h: "list_all harmless es"
      and c: "snd (SetupConfig env req w) = w
      \<or> snd (SetupConfig env req w) = (emit es w)\<lparr>nextId := Suc (nextId w)\<rparr>
      \<or> snd (SetupConfig env req w)
          = (emit (es @ [CancelCtx (Suc (nextId w))]) w)\<lparr>nextId := Suc (Suc (nextId w))\<rparr>
      \<or> (\<exists>cfg stream. snd (SetupConfig env req w)
          = installWorld w es cfg
              \<lparr>ConfigName = req_ConfigName req, DataplaneInstance = req_Instance req\<rparr> stream)"
      by blast
    from c show ?thesis
    proof (elim disjE exE)
      assume "snd (SetupConfig env req w) = w"
      with DoSetup have "step a w = w" by simp
      from same [OF this] show ?thesis by blast
    next
      assume "snd (SetupConfig env req w) = (emit es w)\<lparr>nextId := Suc (nextId w)\<rparr>"
      with DoSetup have "nextId w \<le> Suc (nextId w)
          \<and> step a w = (emit es w)\<lparr>nextId := Suc (nextId w)\<rparr>" by simp
      with h show ?thesis by blast
    next
      assume "snd (SetupConfig env req w)
          = (emit (es @ [CancelCtx (Suc (nextId w))]) w)\<lparr>nextId := Suc (Suc (nextId w))\<rparr>"
      with DoSetup have "step a w
          = (emit (es @ [CancelCtx (Suc (nextId w))]) w)\<lparr>nextId := Suc (Suc (nextId w))\<rparr>"
        by simp
      with h show ?thesis by blast
    next
      fix cfg stream
      assume "snd (SetupConfig env req w)
          = installWorld w es cfg
              \<lparr>ConfigName = req_ConfigName req, DataplaneInstance = req_Instance req\<rparr> stream"
      with DoSetup have "step a w = installWorld w es cfg
              \<lparr>ConfigName = req_ConfigName req, DataplaneInstance = req_Instance req\<rparr> stream"
        by simp
      with h show ?thesis by blast
    qed
  next
    case (DoSupervise ctx holder client obs)
    show ?thesis
    proof (cases "(ctx, holder, client) \<in> set (running w)")
      case False
      with DoSupervise have "step a w = w" by simp
      from same [OF this] show ?thesis by blast
    next
      case True
      with assms have ch: "cancel holder = Some ctx" "conn holder = Some client"
        by (auto simp: wellFormed_def)
      show ?thesis
      proof (cases "runBirdImportLoop ctx holder client obs w")
        case None
        with DoSupervise True have "step a w = w" by simp
        from same [OF this] show ?thesis by blast
      next
        case (Some r)
        obtain e w' where r: "r = (e, w')" by (cases r)
        from runBirdImportLoop_cleanup [OF Some [unfolded r] ch] obtain w1 where
          ls: "loopStep w w1" and w': "w' = emit [CancelCtx ctx, ConnClose client] w1" by blast
        from loopStep_shape [OF ls] obtain es where es: "list_all harmless es"
          and w1: "w1 = (emit es w)\<lparr>slots := slots w1\<rparr>" by blast
        have "w' = (emit (es @ [CancelCtx ctx, ConnClose client]) w)\<lparr>slots := slots w1\<rparr>"
          unfolding w' by (subst w1) (simp add: emit_def)
        with DoSupervise True Some r
        have "step a w = (emit (es @ [CancelCtx ctx, ConnClose client]) w)
                           \<lparr>slots := slots w1, running := remove1 (ctx, holder, client) (running w)\<rparr>"
          by (simp add: emit_def)
        with True es show ?thesis by blast
      qed
    qed
  qed
qed

subsection \<open>The reachable states are well formed\<close>

lemma distinct_map_remove1:
  "distinct (map f xs) \<Longrightarrow> distinct (map f (remove1 x xs))"
proof (induction xs)
  case Nil
  show ?case by simp
next
  case (Cons y xs)
  have "set (remove1 x xs) \<subseteq> set xs" by (rule set_remove1_subset)
  with Cons show ?case by auto
qed

lemma fst_remove1_distinct:
  "distinct (map fst xs) \<Longrightarrow> (c, r) \<in> set xs \<Longrightarrow> c \<notin> fst ` set (remove1 (c, r) xs)"
proof (induction xs)
  case Nil
  then show ?case by simp
next
  case (Cons y xs)
  show ?case
  proof (cases "y = (c, r)")
    case True
    with Cons.prems show ?thesis by auto
  next
    case False
    with Cons.prems have "(c, r) \<in> set xs" by simp
    with Cons.prems have "fst y \<noteq> c" by (auto simp: image_iff)
    with Cons False show ?thesis by auto
  qed
qed

lemma wellFormed_holder:
  assumes "wellFormed w" and "m_imports w k = Some h"
  shows "\<exists>c cn. cancel h = Some c \<and> conn h = Some cn \<and> c < nextId w"
proof -
  from assms(1) have "\<forall>k h. m_imports w k = Some h \<longrightarrow>
        (\<exists>c cn. cancel h = Some c \<and> conn h = Some cn \<and> c < nextId w)"
    unfolding wellFormed_def by (elim conjE)
  with assms(2) show ?thesis by (elim allE [of _ k] allE [of _ h] impE)
qed

lemma wellFormed_inj:
  assumes "wellFormed w" and "m_imports w k = Some h" and "m_imports w k' = Some h'"
    and "cancel h = cancel h'"
  shows "k = k'"
proof -
  from assms(1) have "\<forall>k k' h h'. m_imports w k = Some h \<and> m_imports w k' = Some h'
            \<and> cancel h = cancel h' \<longrightarrow> k = k'"
    unfolding wellFormed_def by (elim conjE)
  then have "m_imports w k = Some h \<and> m_imports w k' = Some h' \<and> cancel h = cancel h'
             \<longrightarrow> k = k'"
    by (elim allE)
  with assms(2-4) show ?thesis by simp
qed

lemma wellFormed_running:
  assumes "wellFormed w" and "g \<in> set (running w)"
  shows "cancel (fst (snd g)) = Some (fst g) \<and> conn (fst (snd g)) = Some (snd (snd g))
         \<and> fst g < nextId w"
proof -
  from assms(1) have "\<forall>g \<in> set (running w).
            cancel (fst (snd g)) = Some (fst g) \<and> conn (fst (snd g)) = Some (snd (snd g))
            \<and> fst g < nextId w"
    unfolding wellFormed_def by (elim conjE)
  with assms(2) show ?thesis by blast
qed

lemma wellFormed_distinct: "wellFormed w \<Longrightarrow> distinct (map fst (running w))"
  unfolding wellFormed_def by (elim conjE)

lemma wellFormed_quiet:
  assumes "wellFormed w" and "nextId w \<le> n"
  shows "wellFormed ((emit es w)\<lparr>nextId := n\<rparr>)"
proof -
  let ?w' = "(emit es w)\<lparr>nextId := n\<rparr>"
  note old = wellFormed_holder [OF assms(1)] and run = wellFormed_running [OF assms(1)]
    and dis = wellFormed_distinct [OF assms(1)]
  from assms(1) have inj: "\<forall>k k' h h'. m_imports w k = Some h \<and> m_imports w k' = Some h'
            \<and> cancel h = cancel h' \<longrightarrow> k = k'"
    unfolding wellFormed_def by (elim conjE)
  have 1: "\<forall>k h. m_imports ?w' k = Some h \<longrightarrow>
        (\<exists>c cn. cancel h = Some c \<and> conn h = Some cn \<and> c < nextId ?w')"
  proof (intro allI impI)
    fix k h assume "m_imports ?w' k = Some h"
    then have "m_imports w k = Some h" by simp
    from old [OF this] obtain c cn where "cancel h = Some c" "conn h = Some cn" "c < nextId w"
      by blast
    with assms(2) show "\<exists>c cn. cancel h = Some c \<and> conn h = Some cn \<and> c < nextId ?w'"
      by simp
  qed
  have 3: "\<forall>g \<in> set (running ?w').
            cancel (fst (snd g)) = Some (fst g) \<and> conn (fst (snd g)) = Some (snd (snd g))
            \<and> fst g < nextId ?w'"
  proof
    fix g assume "g \<in> set (running ?w')"
    then have "g \<in> set (running w)" by simp
    from run [OF this] assms(2)
    show "cancel (fst (snd g)) = Some (fst g) \<and> conn (fst (snd g)) = Some (snd (snd g))
            \<and> fst g < nextId ?w'" by simp
  qed
  from inj have 2: "\<forall>k k' h h'. m_imports ?w' k = Some h \<and> m_imports ?w' k' = Some h'
            \<and> cancel h = cancel h' \<longrightarrow> k = k'" by simp
  from dis have 4: "distinct (map fst (running ?w'))" by simp
  from 1 2 3 4 show ?thesis unfolding wellFormed_def by (intro conjI)
qed

lemma wellFormed_install:
  assumes "wellFormed w"
  shows "wellFormed (installWorld w es cfg target stream)"
proof -
  let ?H = "newHolder cfg (Suc (nextId w)) (nextId w) (Suc (Suc (nextId w)))"
  let ?w' = "installWorld w es cfg target stream"
  have mi: "m_imports ?w' = (m_imports w)(keyOf target \<mapsto> ?H)"
    and ru: "running ?w' = running w @ [(Suc (nextId w), ?H, nextId w)]"
    and ni: "nextId ?w' = Suc (Suc (Suc (nextId w)))"
    by (simp_all add: installWorld_def Let_def)
  have cH: "cancel ?H = Some (Suc (nextId w))" "conn ?H = Some (nextId w)"
    by (simp_all add: newHolder_def)
  note old = wellFormed_holder [OF assms] and inj = wellFormed_inj [OF assms]
    and run = wellFormed_running [OF assms] and dis = wellFormed_distinct [OF assms]
  have 1: "\<forall>k h. m_imports ?w' k = Some h \<longrightarrow>
        (\<exists>c cn. cancel h = Some c \<and> conn h = Some cn \<and> c < nextId ?w')"
  proof (intro allI impI)
    fix k h assume a: "m_imports ?w' k = Some h"
    show "\<exists>c cn. cancel h = Some c \<and> conn h = Some cn \<and> c < nextId ?w'"
    proof (cases "k = keyOf target")
      case True
      with a have "h = ?H" unfolding mi by simp
      with cH ni show ?thesis by simp
    next
      case False
      with a have "m_imports w k = Some h" unfolding mi by simp
      from old [OF this] obtain c cn where "cancel h = Some c" "conn h = Some cn" "c < nextId w"
        by blast
      with ni show ?thesis by simp
    qed
  qed
  have 2: "\<forall>k k' h h'. m_imports ?w' k = Some h \<and> m_imports ?w' k' = Some h'
            \<and> cancel h = cancel h' \<longrightarrow> k = k'"
  proof (intro allI impI, elim conjE)
    fix k k' h h'
    assume a: "m_imports ?w' k = Some h" "m_imports ?w' k' = Some h'" "cancel h = cancel h'"
    show "k = k'"
    proof (cases "k = keyOf target")
      case True
      show ?thesis
      proof (cases "k' = keyOf target")
        case True
        with \<open>k = keyOf target\<close> show ?thesis by simp
      next
        case False
        with a(2) have "m_imports w k' = Some h'" unfolding mi by simp
        from old [OF this] obtain c where "cancel h' = Some c" "c < nextId w" by blast
        moreover from True a(1) have "h = ?H" unfolding mi by simp
        ultimately show ?thesis using a(3) cH by simp
      qed
    next
      case False
      with a(1) have k: "m_imports w k = Some h" unfolding mi by simp
      show ?thesis
      proof (cases "k' = keyOf target")
        case True
        from old [OF k] obtain c where "cancel h = Some c" "c < nextId w" by blast
        moreover from True a(2) have "h' = ?H" unfolding mi by simp
        ultimately show ?thesis using a(3) cH by simp
      next
        case False
        with a(2) have "m_imports w k' = Some h'" unfolding mi by simp
        from inj [OF k this a(3)] show ?thesis .
      qed
    qed
  qed
  have 3: "\<forall>g \<in> set (running ?w').
            cancel (fst (snd g)) = Some (fst g) \<and> conn (fst (snd g)) = Some (snd (snd g))
            \<and> fst g < nextId ?w'"
  proof
    fix g assume "g \<in> set (running ?w')"
    then have "g = (Suc (nextId w), ?H, nextId w) \<or> g \<in> set (running w)"
      unfolding ru by simp
    then show "cancel (fst (snd g)) = Some (fst g) \<and> conn (fst (snd g)) = Some (snd (snd g))
            \<and> fst g < nextId ?w'"
    proof
      assume "g = (Suc (nextId w), ?H, nextId w)"
      with cH ni show ?thesis by simp
    next
      assume "g \<in> set (running w)"
      from run [OF this] ni show ?thesis by simp
    qed
  qed
  have 4: "distinct (map fst (running ?w'))"
  proof -
    have "Suc (nextId w) \<notin> fst ` set (running w)"
    proof
      assume "Suc (nextId w) \<in> fst ` set (running w)"
      then obtain g where "g \<in> set (running w)" "fst g = Suc (nextId w)" by auto
      with run [of g] show False by simp
    qed
    with dis show ?thesis unfolding ru by simp
  qed
  from 1 2 3 4 show ?thesis unfolding wellFormed_def by (intro conjI)
qed

lemma wellFormed_supervise:
  assumes "wellFormed w"
  shows "wellFormed ((emit es w)\<lparr>slots := sl, running := remove1 g (running w)\<rparr>)"
proof -
  let ?w' = "(emit es w)\<lparr>slots := sl, running := remove1 g (running w)\<rparr>"
  note old = wellFormed_holder [OF assms] and run = wellFormed_running [OF assms]
    and dis = wellFormed_distinct [OF assms]
  from assms have inj: "\<forall>k k' h h'. m_imports w k = Some h \<and> m_imports w k' = Some h'
            \<and> cancel h = cancel h' \<longrightarrow> k = k'"
    unfolding wellFormed_def by (elim conjE)
  have 1: "\<forall>k h. m_imports ?w' k = Some h \<longrightarrow>
        (\<exists>c cn. cancel h = Some c \<and> conn h = Some cn \<and> c < nextId ?w')"
  proof (intro allI impI)
    fix k h assume "m_imports ?w' k = Some h"
    then have "m_imports w k = Some h" by simp
    from old [OF this] show "\<exists>c cn. cancel h = Some c \<and> conn h = Some cn \<and> c < nextId ?w'"
      by simp
  qed
  from inj have 2: "\<forall>k k' h h'. m_imports ?w' k = Some h \<and> m_imports ?w' k' = Some h'
            \<and> cancel h = cancel h' \<longrightarrow> k = k'" by simp
  have 3: "\<forall>g \<in> set (running ?w').
            cancel (fst (snd g)) = Some (fst g) \<and> conn (fst (snd g)) = Some (snd (snd g))
            \<and> fst g < nextId ?w'"
  proof
    fix x assume "x \<in> set (running ?w')"
    then have "x \<in> set (remove1 g (running w))" by simp
    with set_remove1_subset [of g "running w"] have "x \<in> set (running w)" by blast
    from run [OF this]
    show "cancel (fst (snd x)) = Some (fst x) \<and> conn (fst (snd x)) = Some (snd (snd x))
            \<and> fst x < nextId ?w'" by simp
  qed
  from dis have 4: "distinct (map fst (running ?w'))"
    by (simp add: distinct_map_remove1)
  from 1 2 3 4 show ?thesis unfolding wellFormed_def by (intro conjI)
qed

lemma wellFormed_step:
  assumes "wellFormed w"
  shows "wellFormed (step a w)"
  using step_effect [OF assms, of a]
proof (elim exE conjE disjE)
  fix es n assume "nextId w \<le> n" "step a w = (emit es w)\<lparr>nextId := n\<rparr>"
  with assms show ?thesis by (simp add: wellFormed_quiet)
next
  fix es
  assume "step a w = (emit (es @ [CancelCtx (Suc (nextId w))]) w)\<lparr>nextId := Suc (Suc (nextId w))\<rparr>"
  with assms show ?thesis by (simp add: wellFormed_quiet)
next
  fix es cfg target stream assume "step a w = installWorld w es cfg target stream"
  with assms show ?thesis by (simp add: wellFormed_install)
next
  fix es ctx h cl sl
  assume "step a w = (emit (es @ [CancelCtx ctx, ConnClose cl]) w)
                           \<lparr>slots := sl, running := remove1 (ctx, h, cl) (running w)\<rparr>"
  with assms show ?thesis by (simp add: wellFormed_supervise)
qed

lemma wellFormed_init: "wellFormed NewModuleService"
  by (simp add: wellFormed_def NewModuleService_def)

lemma wellFormed_exec: "wellFormed w \<Longrightarrow> wellFormed (exec acts w)"
  unfolding exec_def by (induction acts arbitrary: w) (simp_all add: wellFormed_step)

subsection \<open>The registry and the trace\<close>

lemma count_harmless: "list_all harmless es \<Longrightarrow> count_list es (CancelCtx c) = 0"
  by (induction es) auto



lemma lastStored_stopEvents [simp]: "lastStored k (stopEvents old) = None"
  by (simp add: stopEvents_def split: option.splits)

lemma count_stopEvents:
  "count_list (stopEvents old) (CancelCtx c)
   = (case old of None \<Rightarrow> 0 | Some h \<Rightarrow> if cancel h = Some c then 1 else 0)"
  by (simp add: stopEvents_def split: option.splits)



subsection \<open>The budget of cancellations\<close>

lemma cancelBudgetD1:
  "cancelBudget w \<Longrightarrow>
   cancels c w + (if installed c w then 1 else 0) + (if supervised c w then 1 else 0) \<le> 2"
  unfolding cancelBudget_def by (elim conjE allE [of _ c])

lemma cancelBudgetD2: "cancelBudget w \<Longrightarrow> nextId w \<le> c \<Longrightarrow> cancels c w = 0"
  unfolding cancelBudget_def by (elim conjE allE [of _ c] impE)

lemma cancelBudgetI:
  assumes "\<And>c. cancels c w + (if installed c w then 1 else 0)
                 + (if supervised c w then 1 else 0) \<le> 2"
    and "\<And>c. nextId w \<le> c \<Longrightarrow> cancels c w = 0"
  shows "cancelBudget w"
  unfolding cancelBudget_def using assms by (intro conjI allI impI)

lemma installed_fresh:
  assumes "wellFormed w" and "nextId w \<le> c"
  shows "\<not> installed c w"
proof
  assume "installed c w"
  then obtain k h where kh: "m_imports w k = Some h" "cancel h = Some c"
    unfolding installed_def by blast
  from wellFormed_holder [OF assms(1) kh(1)] kh(2) assms(2) show False by auto
qed

lemma supervised_fresh:
  assumes "wellFormed w" and "nextId w \<le> c"
  shows "\<not> supervised c w"
proof
  assume "supervised c w"
  then obtain g where g: "g \<in> set (running w)" "fst g = c"
    unfolding supervised_def by auto
  from wellFormed_running [OF assms(1) g(1)] g(2) assms(2) show False by simp
qed

lemma cancelBudget_quiet:
  assumes "cancelBudget w" and "list_all harmless es" and "nextId w \<le> n"
  shows "cancelBudget ((emit es w)\<lparr>nextId := n\<rparr>)"
proof (rule cancelBudgetI)
  let ?w' = "(emit es w)\<lparr>nextId := n\<rparr>"
  fix c
  have eq: "cancels c ?w' = cancels c w" "installed c ?w' = installed c w"
    "supervised c ?w' = supervised c w"
    using assms(2) by (simp_all add: cancels_def installed_def supervised_def count_harmless)
  from cancelBudgetD1 [OF assms(1), of c]
  show "cancels c ?w' + (if installed c ?w' then 1 else 0)
          + (if supervised c ?w' then 1 else 0) \<le> 2"
    unfolding eq .
  show "cancels c ?w' = 0" if "nextId ?w' \<le> c"
  proof -
    from that assms(3) have "nextId w \<le> c" by simp
    from cancelBudgetD2 [OF assms(1) this] show ?thesis unfolding eq .
  qed
qed

lemma cancelBudget_feed_failed:
  assumes "wellFormed w" and "cancelBudget w" and "list_all harmless es"
  shows "cancelBudget ((emit (es @ [CancelCtx (Suc (nextId w))]) w)
                        \<lparr>nextId := Suc (Suc (nextId w))\<rparr>)"
proof (rule cancelBudgetI)
  let ?x = "Suc (nextId w)"
  let ?w' = "(emit (es @ [CancelCtx ?x]) w)\<lparr>nextId := Suc ?x\<rparr>"
  fix c
  have eq: "cancels c ?w' = cancels c w + (if c = ?x then 1 else 0)"
    "installed c ?w' = installed c w" "supervised c ?w' = supervised c w"
    using assms(3) by (simp_all add: cancels_def installed_def supervised_def count_harmless)
  show "cancels c ?w' + (if installed c ?w' then 1 else 0)
          + (if supervised c ?w' then 1 else 0) \<le> 2"
  proof (cases "c = ?x")
    case True
    then have f: "nextId w \<le> c" by simp
    from cancelBudgetD2 [OF assms(2) f] installed_fresh [OF assms(1) f]
      supervised_fresh [OF assms(1) f] True
    show ?thesis unfolding eq by simp
  next
    case False
    with cancelBudgetD1 [OF assms(2), of c] show ?thesis unfolding eq by simp
  qed
  show "cancels c ?w' = 0" if "nextId ?w' \<le> c"
  proof -
    from that have "nextId w \<le> c" "c \<noteq> ?x" by simp_all
    with cancelBudgetD2 [OF assms(2), of c] show ?thesis unfolding eq by simp
  qed
qed

lemma cancelBudget_supervise:
  assumes "wellFormed w" and "cancelBudget w" and "list_all harmless es"
    and "(ctx, h, cl) \<in> set (running w)"
  shows "cancelBudget ((emit (es @ [CancelCtx ctx, ConnClose cl]) w)
                        \<lparr>slots := sl, running := remove1 (ctx, h, cl) (running w)\<rparr>)"
proof (rule cancelBudgetI)
  let ?w' = "(emit (es @ [CancelCtx ctx, ConnClose cl]) w)
               \<lparr>slots := sl, running := remove1 (ctx, h, cl) (running w)\<rparr>"
  fix c
  have eq: "cancels c ?w' = cancels c w + (if c = ctx then 1 else 0)"
    "installed c ?w' = installed c w"
    using assms(3) by (simp_all add: cancels_def installed_def count_harmless)
  have sub: "supervised c ?w' \<Longrightarrow> supervised c w"
    using set_remove1_subset [of "(ctx, h, cl)" "running w"]
    by (auto simp: supervised_def)
  have was: "supervised ctx w" using assms(4) by (force simp: supervised_def)
  have gone: "\<not> supervised ctx ?w'"
    using fst_remove1_distinct [OF wellFormed_distinct [OF assms(1)] assms(4)]
    by (simp add: supervised_def)
  show "cancels c ?w' + (if installed c ?w' then 1 else 0)
          + (if supervised c ?w' then 1 else 0) \<le> 2"
  proof (cases "c = ctx")
    case True
    with cancelBudgetD1 [OF assms(2), of ctx] was gone show ?thesis unfolding eq by simp
  next
    case False
    show ?thesis
    proof (cases "supervised c ?w'")
      case True
      with sub have "supervised c w" by simp
      with cancelBudgetD1 [OF assms(2), of c] True \<open>c \<noteq> ctx\<close> show ?thesis
        unfolding eq by simp
    next
      case sFalse: False
      have "cancels c w + (if installed c w then 1 else 0)
            \<le> cancels c w + (if installed c w then 1 else 0)
               + (if supervised c w then 1 else 0)" by simp
      also note cancelBudgetD1 [OF assms(2), of c]
      finally show ?thesis using sFalse \<open>c \<noteq> ctx\<close> unfolding eq by simp
    qed
  qed
  show "cancels c ?w' = 0" if "nextId ?w' \<le> c"
  proof -
    from wellFormed_running [OF assms(1) assms(4)] have "ctx < nextId w" by simp
    with that have "nextId w \<le> c" "c \<noteq> ctx" by simp_all
    with cancelBudgetD2 [OF assms(2), of c] show ?thesis unfolding eq by simp
  qed
qed

lemma cancelBudget_install:
  assumes "wellFormed w" and "cancelBudget w" and "list_all harmless es"
  shows "cancelBudget (installWorld w es cfg target stream)"
proof (rule cancelBudgetI)
  let ?x = "Suc (nextId w)"
  let ?key = "keyOf target"
  let ?H = "newHolder cfg ?x (nextId w) (Suc ?x)"
  let ?w' = "installWorld w es cfg target stream"
  have mi: "m_imports ?w' = (m_imports w)(?key \<mapsto> ?H)"
    and ru: "running ?w' = running w @ [(?x, ?H, nextId w)]"
    and ni: "nextId ?w' = Suc (Suc ?x)"
    by (simp_all add: installWorld_def Let_def)
  have cH: "cancel ?H = Some ?x" by (simp add: newHolder_def)
  fix c
  have cn: "cancels c ?w' = cancels c w + count_list (stopEvents (m_imports w ?key)) (CancelCtx c)"
    using assms(3) by (simp add: cancels_def installWorld_def Let_def count_harmless)
  have su: "supervised c ?w' \<longleftrightarrow> supervised c w \<or> c = ?x"
    unfolding supervised_def ru by auto
  have fx: "\<not> installed ?x w" "\<not> supervised ?x w" "cancels ?x w = 0"
    using installed_fresh [OF assms(1), of ?x] supervised_fresh [OF assms(1), of ?x]
      cancelBudgetD2 [OF assms(2), of ?x] by simp_all
  have stop_old: "count_list (stopEvents (m_imports w ?key)) (CancelCtx c) = 0"
    if "\<not> (\<exists>h. m_imports w ?key = Some h \<and> cancel h = Some c)"
    using that by (simp add: count_stopEvents split: option.splits)
  have stop_fresh: "count_list (stopEvents (m_imports w ?key)) (CancelCtx c) = 0"
    if "nextId w \<le> c"
  proof (rule stop_old, rule notI)
    assume "\<exists>h. m_imports w ?key = Some h \<and> cancel h = Some c"
    then have "installed c w" unfolding installed_def by blast
    with installed_fresh [OF assms(1) that] show False by simp
  qed
  show "cancels c ?w' + (if installed c ?w' then 1 else 0)
          + (if supervised c ?w' then 1 else 0) \<le> 2"
  proof (cases "c = ?x")
    case True
    then have f: "nextId w \<le> c" by simp
    from True fx stop_fresh [OF f] have "cancels c ?w' = 0" unfolding cn by simp
    then show ?thesis by simp
  next
    case False
    show ?thesis
    proof (cases "\<exists>h. m_imports w ?key = Some h \<and> cancel h = Some c")
      case True
      then obtain oh where oh: "m_imports w ?key = Some oh" "cancel oh = Some c" by blast
      then have was: "installed c w" unfolding installed_def by blast
      have gone: "\<not> installed c ?w'"
      proof
        assume "installed c ?w'"
        then obtain k h where kh: "m_imports ?w' k = Some h" "cancel h = Some c"
          unfolding installed_def by blast
        show False
        proof (cases "k = ?key")
          case True
          with kh(1) have "h = ?H" unfolding mi by simp
          with kh(2) cH \<open>c \<noteq> ?x\<close> show False by simp
        next
          case kFalse: False
          with kh(1) have "m_imports w k = Some h" unfolding mi by simp
          from wellFormed_inj [OF assms(1) this oh(1)] kh(2) oh(2) kFalse show False by simp
        qed
      qed
      from oh have "count_list (stopEvents (m_imports w ?key)) (CancelCtx c) = 1"
        by (simp add: count_stopEvents)
      with cancelBudgetD1 [OF assms(2), of c] was gone False show ?thesis
        unfolding cn su by simp
    next
      case nFalse: False
      have imp: "installed c ?w' \<Longrightarrow> installed c w"
      proof -
        assume "installed c ?w'"
        then obtain k h where kh: "m_imports ?w' k = Some h" "cancel h = Some c"
          unfolding installed_def by blast
        have "k \<noteq> ?key"
        proof
          assume "k = ?key"
          with kh(1) have "h = ?H" unfolding mi by simp
          with kh(2) cH \<open>c \<noteq> ?x\<close> show False by simp
        qed
        with kh(1) have "m_imports w k = Some h" unfolding mi by simp
        with kh(2) show "installed c w" unfolding installed_def by blast
      qed
      have "cancels c ?w' = cancels c w" unfolding cn using stop_old [OF nFalse] by simp
      moreover have "(if installed c ?w' then 1 else 0) \<le> (if installed c w then 1 else (0::nat))"
        using imp by auto
      moreover have "(if supervised c ?w' then 1 else 0) = (if supervised c w then 1 else (0::nat))"
        unfolding su using False by simp
      ultimately show ?thesis using cancelBudgetD1 [OF assms(2), of c] by linarith
    qed
  qed
  show "cancels c ?w' = 0" if "nextId ?w' \<le> c"
  proof -
    from that have f: "nextId w \<le> c" unfolding ni by simp
    from cancelBudgetD2 [OF assms(2) f] stop_fresh [OF f] show ?thesis unfolding cn by simp
  qed
qed

lemma cancelBudget_step:
  assumes "wellFormed w" and "cancelBudget w"
  shows "cancelBudget (step a w)"
  using step_effect [OF assms(1), of a]
proof (elim exE conjE disjE)
  fix es n assume "list_all harmless es" "nextId w \<le> n" "step a w = (emit es w)\<lparr>nextId := n\<rparr>"
  with assms(2) show ?thesis by (simp add: cancelBudget_quiet)
next
  fix es
  assume "list_all harmless es"
    "step a w = (emit (es @ [CancelCtx (Suc (nextId w))]) w)\<lparr>nextId := Suc (Suc (nextId w))\<rparr>"
  with assms show ?thesis by (simp add: cancelBudget_feed_failed)
next
  fix es cfg target stream
  assume "list_all harmless es" "step a w = installWorld w es cfg target stream"
  with assms show ?thesis by (simp add: cancelBudget_install)
next
  fix es ctx h cl sl
  assume "list_all harmless es" "(ctx, h, cl) \<in> set (running w)"
    "step a w = (emit (es @ [CancelCtx ctx, ConnClose cl]) w)
                           \<lparr>slots := sl, running := remove1 (ctx, h, cl) (running w)\<rparr>"
  with assms show ?thesis by (simp add: cancelBudget_supervise)
qed

lemma cancelBudget_init: "cancelBudget NewModuleService"
  by (simp add: cancelBudget_def cancels_def installed_def supervised_def NewModuleService_def)

lemma cancelBudget_exec:
  "wellFormed w \<Longrightarrow> cancelBudget w \<Longrightarrow> cancelBudget (exec acts w)"
  unfolding exec_def
  by (induction acts arbitrary: w) (simp_all add: wellFormed_step cancelBudget_step)

subsection \<open>Runs\<close>

lemma setup_bird_fresh: "step (DoSetup envOk reqBird) NewModuleService = world1"
  by (simp add: SetupConfig_def setupConfig_def processBirdImport_def envOk_def reqBird_def
      cfgBird_def Let_def emit_def NewModuleService_def world1_def holder1_def newHolder_def
      keyOf_def tgt_def eval_nat_numeral)

lemma exec_Cons: "exec (a # acts) w = exec acts (step a w)"
  by (simp add: exec_def)

lemma exec_Nil: "exec [] w = w"
  by (simp add: exec_def)


lemma setup_bird_again:
  "trace (step (DoSetup envOk reqBird) world1)
   = trace world1 @ [NewClient 3, InsertRoute 3 tgt ''10.0.0.0/24'' ''192.0.2.1'',
       FlushRoutes 3 tgt, FeedRIB 3 4, Lock, CancelCtx 1, ConnClose 0,
       Store (keyOf tgt) (newHolder (BirdImport cfgBird) 4 3 5),
       Go 4 (newHolder (BirdImport cfgBird) 4 3 5) 3, Unlock]
   \<and> running (step (DoSetup envOk reqBird) world1)
     = [(1, holder1, 0), (4, newHolder (BirdImport cfgBird) 4 3 5, 3)]
   \<and> m_imports (step (DoSetup envOk reqBird) world1)
     = [keyOf tgt \<mapsto> newHolder (BirdImport cfgBird) 4 3 5]"
  by (simp add: SetupConfig_def setupConfig_def processBirdImport_def envOk_def reqBird_def
      cfgBird_def Let_def emit_def world1_def holder1_def newHolder_def stopOld_def
      keyOf_def tgt_def eval_nat_numeral)

lemma runBirdImportLoop_frame:
  assumes "runBirdImportLoop ctx holder client obs w = Some (e, w')"
  shows "m_imports w' = m_imports w \<and> running w' = running w \<and> nextId w' = nextId w"
proof -
  from assms obtain e1 w1 where
    l: "loop ctx holder client True obs (emit [BackoffReset] w) = Some (e1, w1)"
    and c: "w' = snd (cleanup holder w1)"
    by (auto simp: runBirdImportLoop_def split: option.splits prod.splits)
  from loop_loopStep [OF l] have "m_imports w1 = m_imports w \<and> running w1 = running w
      \<and> nextId w1 = nextId w"
    by (simp add: loopStep_def)
  with c show ?thesis by (simp add: cleanup_def Let_def split: option.splits)
qed

lemma supervise_keeps_registry:
  "m_imports (step (DoSupervise ctx holder client obs) w) = m_imports w"
proof (cases "runBirdImportLoop ctx holder client obs w")
  case None
  then show ?thesis by simp
next
  case (Some r)
  obtain e w' where "r = (e, w')" by (cases r)
  with Some runBirdImportLoop_frame [of ctx holder client obs w e w'] show ?thesis by simp
qed

lemma installWorld_registry:
  "m_imports (installWorld w es cfg target stream)
     = (m_imports w)(keyOf target \<mapsto> newHolder cfg (Suc (nextId w)) (nextId w) (Suc (Suc (nextId w))))"
  and installWorld_trace:
  "trace (installWorld w es cfg target stream)
     = trace w @ es @ [FeedRIB (nextId w) (Suc (nextId w)), Lock]
       @ stopEvents (m_imports w (keyOf target))
       @ [Store (keyOf target) (newHolder cfg (Suc (nextId w)) (nextId w) (Suc (Suc (nextId w)))),
          Go (Suc (nextId w)) (newHolder cfg (Suc (nextId w)) (nextId w) (Suc (Suc (nextId w))))
            (nextId w), Unlock]"
  by (simp_all add: installWorld_def Let_def)

lemma step_registry:
  assumes "wellFormed w"
  shows "m_imports (step a w) k = m_imports w k
         \<or> (\<exists>h. m_imports (step a w) k = Some h
               \<and> Store k h \<in> set (drop (length (trace w)) (trace (step a w))))"
  using step_effect [OF assms, of a]
proof (elim exE conjE disjE)
  fix es n assume "step a w = (emit es w)\<lparr>nextId := n\<rparr>"
  then show ?thesis by simp
next
  fix es
  assume "step a w = (emit (es @ [CancelCtx (Suc (nextId w))]) w)\<lparr>nextId := Suc (Suc (nextId w))\<rparr>"
  then show ?thesis by simp
next
  fix es cfg target stream
  assume s: "step a w = installWorld w es cfg target stream"
  show ?thesis
  proof (cases "k = keyOf target")
    case True
    then show ?thesis unfolding s installWorld_registry installWorld_trace by simp
  next
    case False
    then show ?thesis unfolding s installWorld_registry by simp
  qed
next
  fix es ctx h cl sl
  assume "step a w = (emit (es @ [CancelCtx ctx, ConnClose cl]) w)
                           \<lparr>slots := sl, running := remove1 (ctx, h, cl) (running w)\<rparr>"
  then show ?thesis by simp
qed



lemma reachable_wellFormed: "wellFormed (exec acts NewModuleService)"
  by (rule wellFormed_exec [OF wellFormed_init])

subsection \<open>The registry\<close>





subsection \<open>The supervisor and the reader's return value\<close>

text \<open>
  Leaving the loop runs the deferred cleanup, so the function returns whenever the loop
  does.
\<close>

lemma loop_exit_returns:
  "loop ctx holder client True obs (emit [BackoffReset] w) = Some (e, w1) \<Longrightarrow>
   \<exists>e' w'. runBirdImportLoop ctx holder client obs w = Some (e', w')"
  by (simp add: runBirdImportLoop_def split: prod.splits)

text \<open>
  Claim C2. An iteration that gets as far as \<^verbatim>\<open>export.Run\<close> (the first select took the
  default branch, the connection is not shut down, the stream is active or was
  re-opened, leaving the state \<open>w1\<close>) goes on by the value \<open>Run\<close> returns. On nil the
  loop is left. On an error that \<^verbatim>\<open>errors.Is\<close> matches with \<open>Canceled\<close> or
  \<open>DeadlineExceeded\<close> the loop is left with no further event: no close, no backoff, no
  retry. On any other error \<open>CloseAndRecv\<close> is called on the current stream exactly
  when the error does not carry \<open>errStreamClosed\<close>, the backoff is asked for the next
  interval (after a reset if the reader ran long enough), and then either the context
  or the quit channel ends the sleep and the loop is left, or the timer does and the
  loop goes round again with \<open>streamActive\<close> false.
\<close>

theorem supervisor_after_run:
  assumes "pre ob = PreDefault" and "conn holder = Some k" and "connState ob \<noteq> Shutdown"
    and "export holder = Some ex"
    and "(if \<not> streamActive
          then reconnectStream ctx client (currentStream holder) (reconnect ob) w
          else Some (True, w)) = Some (True, w1)"
  shows "(runErr ob = None \<longrightarrow>
            loop ctx holder client streamActive (ob # obs) w
              = Some (Returned, emit [Run ex ctx] w1))
       \<and> (\<forall>err. runErr ob = Some err
              \<and> (errors_Is err Canceled \<or> errors_Is err DeadlineExceeded) \<longrightarrow>
            loop ctx holder client streamActive (ob # obs) w
              = Some (Returned, emit [Run ex ctx] w1))
       \<and> (\<forall>err. runErr ob = Some err
              \<and> \<not> errors_Is err Canceled \<and> \<not> errors_Is err DeadlineExceeded \<longrightarrow>
            loop ctx holder client streamActive (ob # obs) w
              = (let w5 = emit ([Run ex ctx]
                                @ (if errors_Is err errStreamClosed then []
                                   else [CloseAndRecv (slots w1 (currentStream holder))])
                                @ (if idle ob then [BackoffReset] else [])
                                @ [NextBackOff]) w1
                 in case wake ob of
                      WakeTimer \<Rightarrow> loop ctx holder client False obs w5
                    | WakeCtxDone \<Rightarrow> Some (Returned, w5)
                    | WakeQuit \<Rightarrow> Some (Returned, w5)))"
  using assms
  by (cases streamActive; cases "wake ob") (simp_all add: loopBody_def Let_def)

text \<open>
  The reader fails with \<open>EOF\<close>: the stream is closed, the supervisor sleeps, re-opens
  the stream and runs the reader again, which returns nil.
\<close>

theorem supervisor_after_run_witness:
  "loop 1 holderA 0 True [obFail, obClean] NewModuleService
     = Some (Returned,
             (emit [Run (NewExportReader (Some \<lparr>Sockets = [''bird.sock''], tuning = []\<rparr>)) 1,
                    CloseAndRecv 0, NextBackOff, FeedRIB 0 1,
                    Run (NewExportReader (Some \<lparr>Sockets = [''bird.sock''], tuning = []\<rparr>)) 1]
                NewModuleService)\<lparr>slots := (slots NewModuleService)(2 := 9)\<rparr>)"
  using supervisor_after_run [of obFail holderA 0
      "NewExportReader (Some \<lparr>Sockets = [''bird.sock''], tuning = []\<rparr>)" True 1 0
      NewModuleService NewModuleService "[obClean]"]
  by (simp add: obFail_def obClean_def holderA_def loopBody_def Let_def NewModuleService_def
      emit_def)

subsection \<open>Teardown\<close>

lemma supervisor_ctx_done:
  "cancel holder = Some c \<Longrightarrow> conn holder = Some k \<Longrightarrow>
   runBirdImportLoop ctx holder client [obDone] w
     = Some (Returned, emit [BackoffReset, CancelCtx c, ConnClose k] w)"
  by (simp add: runBirdImportLoop_def loopBody_def cleanup_def obDone_def Let_def)

lemma holder1_fields: "cancel holder1 = Some 1" "conn holder1 = Some 0"
  by (simp_all add: holder1_def newHolder_def)

lemma cancels_emit [simp]: "cancels c (emit es w) = cancels c w + count_list es (CancelCtx c)"
  by (simp add: cancels_def)

lemma cancels_running_update [simp]: "cancels c (w\<lparr>running := r\<rparr>) = cancels c w"
  by (simp add: cancels_def)

text \<open>
  A holder is installed, replaced by a second \<open>SetupConfig\<close> for the same key, and then
  its supervisor finds its context done and returns: the cancel function of the first
  holder has been invoked twice, once by the replacement (line 203) and once by the
  supervisor's deferred cleanup (line 233).
\<close>

lemma replaced_then_supervisor_exit:
  "cancels 1 (exec [DoSetup envOk reqBird, DoSetup envOk reqBird, DoSupervise 1 holder1 0 [obDone]]
                NewModuleService) = 2"
proof -
  let ?w2 = "step (DoSetup envOk reqBird) world1"
  have r: "(1, holder1, 0) \<in> set (running ?w2)"
    using setup_bird_again by simp
  have c2: "cancels 1 ?w2 = 1"
    using setup_bird_again by (simp add: cancels_def world1_def)
  have "step (DoSupervise 1 holder1 0 [obDone]) ?w2
        = (emit [BackoffReset, CancelCtx 1, ConnClose 0] ?w2)
            \<lparr>running := remove1 (1, holder1, 0) (running ?w2)\<rparr>"
    using r by (simp add: supervisor_ctx_done [OF holder1_fields] del: step.simps(1))
  then have "cancels 1 (step (DoSupervise 1 holder1 0 [obDone]) ?w2) = 2"
    using c2 by simp
  then show ?thesis
    by (simp only: exec_Cons exec_Nil setup_bird_fresh)
qed

text \<open>
  Claim C5, as the code has it. Each of the two teardown paths invokes the cancel
  function of a holder at most once, so it is invoked at most twice over the holder's
  lifetime: in every state a run reaches, the number of invocations for a context is at
  most two, at most one while a holder with this context is still in the registry (the
  replacement has not happened), at most one while the supervisor started with it is
  still running (its cleanup has not happened), and none while both hold.
\<close>

theorem cancel_budget:
  "cancels c (exec acts NewModuleService)
     + (if installed c (exec acts NewModuleService) then 1 else 0)
     + (if supervised c (exec acts NewModuleService) then 1 else 0) \<le> 2"
  by (rule cancelBudgetD1 [OF cancelBudget_exec [OF wellFormed_init cancelBudget_init]])

text \<open>The bound is reached by the run above.\<close>

theorem cancel_budget_witness:
  "cancels 1 (exec [DoSetup envOk reqBird, DoSetup envOk reqBird, DoSupervise 1 holder1 0 [obDone]]
                NewModuleService) = 2
   \<and> \<not> installed 1 (exec [DoSetup envOk reqBird, DoSetup envOk reqBird,
                             DoSupervise 1 holder1 0 [obDone]] NewModuleService)
   \<and> \<not> supervised 1 (exec [DoSetup envOk reqBird, DoSetup envOk reqBird,
                             DoSupervise 1 holder1 0 [obDone]] NewModuleService)"
  using cancel_budget [of 1 "[DoSetup envOk reqBird, DoSetup envOk reqBird,
                             DoSupervise 1 holder1 0 [obDone]]"]
    replaced_then_supervisor_exit
  by (simp split: if_splits)

text \<open>In that run the cancel function of the first holder is not invoked at most once.\<close>

theorem cancel_twice_counterexample:
  "cancel holder1 = Some 1
   \<and> \<not> cancels 1 (exec [DoSetup envOk reqBird, DoSetup envOk reqBird,
                          DoSupervise 1 holder1 0 [obDone]] NewModuleService) \<le> 1"
  using replaced_then_supervisor_exit holder1_fields by simp

text \<open>
  Claim C9. However \<open>runBirdImportLoop\<close> is left, the registry afterwards is the
  registry before: the holder is not removed. For a holder with its cancel function
  and its connection, the last two events are the cancellation of its context and the
  close of its connection, after events of the loop only. A supervisor's step never
  changes the registry; and in every state a run reaches, any step leaves the entry of
  a key as it was or overwrites it with the holder of a \<open>Store\<close> of that step, so an
  entry is never deleted.
\<close>

theorem supervisor_exit_keeps_registry:
  assumes "runBirdImportLoop ctx holder client obs w = Some (e, w')"
  shows "m_imports w' = m_imports w
       \<and> (\<forall>c k. cancel holder = Some c \<and> conn holder = Some k \<longrightarrow>
            (\<exists>es. trace w' = trace w @ es @ [CancelCtx c, ConnClose k] \<and> list_all loopEvent es))
       \<and> m_imports (step (DoSupervise ctx holder client obs) w) = m_imports w
       \<and> (\<forall>acts a key.
            m_imports (step a (exec acts NewModuleService)) key
              = m_imports (exec acts NewModuleService) key
            \<or> (\<exists>h. m_imports (step a (exec acts NewModuleService)) key = Some h
                  \<and> Store key h \<in> set (drop (length (trace (exec acts NewModuleService)))
                                          (trace (step a (exec acts NewModuleService))))))"
proof (intro conjI allI impI)
  from runBirdImportLoop_frame [OF assms] show "m_imports w' = m_imports w" by simp
  show "m_imports (step (DoSupervise ctx holder client obs) w) = m_imports w"
    by (rule supervise_keeps_registry)
  show "\<exists>es. trace w' = trace w @ es @ [CancelCtx c, ConnClose k] \<and> list_all loopEvent es"
    if "cancel holder = Some c \<and> conn holder = Some k" for c k
  proof -
    from that have ch: "cancel holder = Some c" "conn holder = Some k" by simp_all
    from runBirdImportLoop_cleanup [OF assms ch] obtain w1 where
      s: "loopStep w w1" and w': "w' = emit [CancelCtx c, ConnClose k] w1" by blast
    from loopStep_traceD [OF s] obtain es where
      "trace w1 = trace w @ es \<and> list_all loopEvent es" by blast
    with w' have "trace w' = trace w @ es @ [CancelCtx c, ConnClose k] \<and> list_all loopEvent es"
      by simp
    then show ?thesis ..
  qed
  show "m_imports (step a (exec acts NewModuleService)) key
              = m_imports (exec acts NewModuleService) key
            \<or> (\<exists>h. m_imports (step a (exec acts NewModuleService)) key = Some h
                  \<and> Store key h \<in> set (drop (length (trace (exec acts NewModuleService)))
                                          (trace (step a (exec acts NewModuleService)))))"
    for acts a key
    by (rule step_registry [OF reachable_wellFormed])
qed

text \<open>The supervisor of the first holder finds its context done at once.\<close>

theorem supervisor_exit_keeps_registry_witness:
  "runBirdImportLoop 1 holder1 0 [obDone] world1
     = Some (Returned, emit [BackoffReset, CancelCtx 1, ConnClose 0] world1)
   \<and> m_imports (emit [BackoffReset, CancelCtx 1, ConnClose 0] world1) (keyOf tgt) = Some holder1"
proof -
  have r: "runBirdImportLoop 1 holder1 0 [obDone] world1
     = Some (Returned, emit [BackoffReset, CancelCtx 1, ConnClose 0] world1)"
    by (rule supervisor_ctx_done [OF holder1_fields])
  from supervisor_exit_keeps_registry [OF r]
  have "m_imports (emit [BackoffReset, CancelCtx 1, ConnClose 0] world1) = m_imports world1"
    by (elim conjE)
  moreover have "m_imports world1 (keyOf tgt) = Some holder1" by (simp add: world1_def)
  ultimately show ?thesis using r by simp
qed

end
